theory Spec2Isabelle
  imports Complex_Main "HOL-Library.Multiset"
begin

section \<open>The decision-tree renderer \<^verbatim>\<open>render_tree.js\<close>\<close>

text \<open>
  A shallow embedding of \<^verbatim>\<open>src/wizard/app/common/rule/render_tree.js\<close>.
  JavaScript numbers are modelled as real numbers with exact arithmetic (IEEE-754
  rounding is not part of the model), JavaScript strings as \<open>string\<close> (a list of
  code units), and an optional property of a JSON object as an \<open>option\<close>.
\<close>

subsection \<open>Constants\<close>

definition NODE_FONT_SIZE :: real where "NODE_FONT_SIZE = 12"
definition PARSER_FONT_SIZE :: real where "PARSER_FONT_SIZE = 10"
definition BASE_PENWIDTH :: real where "BASE_PENWIDTH = 1.0"
definition HIGHLIGHT_PENWIDTH_NODE :: real where "HIGHLIGHT_PENWIDTH_NODE = 3.5"
definition HIGHLIGHT_PENWIDTH_EDGE :: real where "HIGHLIGHT_PENWIDTH_EDGE = 3.5"
definition MAX_VALUE_WIDTH :: real where "MAX_VALUE_WIDTH = 300"
definition INPUT_BOX_HEIGHT :: real where "INPUT_BOX_HEIGHT = 40"
definition OUTPUT_BOX_HEIGHT :: real where "OUTPUT_BOX_HEIGHT = 40"
definition INPUT_TO_ROOT_SPACE :: real where "INPUT_TO_ROOT_SPACE = 125"
definition LEAF_TO_PARSER_SPACE :: real where "LEAF_TO_PARSER_SPACE = 8"
definition LEAF_TO_OUTPUT_SPACE :: real where "LEAF_TO_OUTPUT_SPACE = 20"
definition MARGIN_top :: real where "MARGIN_top = 30"
definition MARGIN_right :: real where "MARGIN_right = 40"
definition MARGIN_bottom :: real where "MARGIN_bottom = 30"
definition MARGIN_left :: real where "MARGIN_left = 40"
definition MAIN_SHAPE_WIDTH :: real where "MAIN_SHAPE_WIDTH = 200"
definition MAIN_SHAPE_HEIGHT :: real where "MAIN_SHAPE_HEIGHT = 40"
definition PARSER_BOX_HEIGHT :: real where "PARSER_BOX_HEIGHT = 22"

subsection \<open>truncateText\<close>

definition MONO_CHAR_WIDTH :: real where
  "MONO_CHAR_WIDTH = NODE_FONT_SIZE * 0.6"

definition ellipsis :: string where
  "ellipsis = ''...''"

definition ellipsisWidth :: real where
  "ellipsisWidth = real (length ellipsis) * MONO_CHAR_WIDTH"

text \<open>
  \<^verbatim>\<open>text.substring(a, b)\<close> with \<open>0 \<le> a \<le> b\<close>: both indices are clamped to the
  length of the text, as \<open>take\<close> and \<open>drop\<close> do; a negative index counts as 0.
\<close>

definition substring :: "string \<Rightarrow> int \<Rightarrow> int \<Rightarrow> string" where
  "substring text a b = drop (nat a) (take (nat b) text)"

definition substringFrom :: "string \<Rightarrow> int \<Rightarrow> string" where
  "substringFrom text a = drop (nat a) text"

definition keepChars :: "real \<Rightarrow> int" where
  "keepChars maxWidth = \<lfloor>(maxWidth - ellipsisWidth) / MONO_CHAR_WIDTH\<rfloor>"

definition leftChars :: "real \<Rightarrow> int" where
  "leftChars maxWidth = \<lceil>real_of_int (keepChars maxWidth) / 2\<rceil>"

definition rightChars :: "real \<Rightarrow> int" where
  "rightChars maxWidth = keepChars maxWidth - leftChars maxWidth"

definition truncateText :: "string \<Rightarrow> real \<Rightarrow> string" where
  "truncateText text maxWidth =
     (if real (length text) * MONO_CHAR_WIDTH \<le> maxWidth then text
      else if keepChars maxWidth \<le> 1 then ellipsis
      else substring text 0 (leftChars maxWidth) @ ellipsis
           @ substringFrom text (int (length text) - rightChars maxWidth))"

text \<open>
  The truncation rule in the words of the specification: a text that fits is kept;
  otherwise \<open>k\<close> characters are kept, the first \<open>\<lceil>k/2\<rceil>\<close> and the last
  \<open>k - \<lceil>k/2\<rceil>\<close>, around a middle ellipsis; when fewer than two fit, only the
  ellipsis is left.
\<close>

definition lastChars :: "nat \<Rightarrow> string \<Rightarrow> string" where
  "lastChars n s = rev (take n (rev s))"

definition truncate_spec :: "real \<Rightarrow> real \<Rightarrow> string \<Rightarrow> real \<Rightarrow> string" where
  "truncate_spec charWidth ellWidth s w =
     (let k = \<lfloor>(w - ellWidth) / charWidth\<rfloor>;
          front = \<lceil>real_of_int k / 2\<rceil>
      in if real (length s) * charWidth \<le> w then s
         else if k \<le> 1 then ''...''
         else take (nat front) s @ ''...'' @ lastChars (nat (k - front)) s)"

subsection \<open>Data model\<close>

text \<open>
  A uid is a string. The nodes handed to \<open>buildHierarchy\<close> are the objects
  \<^verbatim>\<open>{uid, label, leaf: false}\<close> made from a branch and \<^verbatim>\<open>{...l, leaf: true}\<close> made
  from a leaf; the \<open>leaf\<close> flag is the tag of the union.
\<close>

type_synonym uid = string

datatype node =
    Branch (uid: uid) (label: string)
  | leaf: Leaf (uid: uid) (leaf_typ: "string option") (parser: "string option")
      (examples: "string list option") (leaf_output: "string option")

record edge =
  source :: uid
  target :: uid
  edge_label :: "string option"

record edge_info =
  info_label :: string
  is_true :: bool
  is_false :: bool
  is_custom :: bool

text \<open>
  The object \<^verbatim>\<open>{ ...n, children: [] }\<close> kept in \<open>nodeMap\<close>, later given
  \<^verbatim>\<open>_edge_info\<close>. The objects are shared between \<open>nodeMap\<close> and the \<open>children\<close>
  arrays, so the model is an explicit store: \<open>nodeMap\<close> maps a uid to its object,
  and a \<open>children\<close> array holds the uids of the objects it refers to.
\<close>

record hnode =
  hdata :: node
  children :: "uid list"
  edge_info :: "edge_info option"

type_synonym nodeMap = "uid \<rightharpoonup> hnode"

text \<open>JavaScript truthiness of a string, and of an optional string property.\<close>

definition truthy :: "string \<Rightarrow> bool" where
  "truthy s = (s \<noteq> [])"

definition truthy_opt :: "string option \<Rightarrow> bool" where
  "truthy_opt x = (case x of None \<Rightarrow> False | Some s \<Rightarrow> truthy s)"

text \<open>\<^verbatim>\<open>x || ''\<close> for an optional string.\<close>

definition or_empty :: "string option \<Rightarrow> string" where
  "or_empty x = (case x of None \<Rightarrow> [] | Some s \<Rightarrow> s)"

text \<open>
  \<^verbatim>\<open>toLowerCase\<close>, on the ASCII letters: an upper-case letter (code 65 to 90) gets
  32 added to its code, which sets bit 5 of the code.
\<close>

definition lowerChar :: "char \<Rightarrow> char" where
  "lowerChar c =
     (if (65::nat) \<le> of_char c \<and> of_char c \<le> (90::nat)
      then (case c of Char b0 b1 b2 b3 b4 b5 b6 b7 \<Rightarrow> Char b0 b1 b2 b3 b4 True b6 b7)
      else c)"

definition toLowerCase :: "string \<Rightarrow> string" where
  "toLowerCase s = map lowerChar s"

subsection \<open>buildHierarchy\<close>

definition edgeInfo :: "string option \<Rightarrow> edge_info" where
  "edgeInfo l =
     (let label = or_empty l
      in \<lparr> info_label = label,
           is_true = (toLowerCase label = ''true''),
           is_false = (toLowerCase label = ''false''),
           is_custom = (toLowerCase label \<noteq> ''true'' \<and> toLowerCase label \<noteq> ''false'') \<rparr>)"

definition initialNodeMap :: "node list \<Rightarrow> nodeMap" where
  "initialNodeMap nodes =
     fold (\<lambda>n m. m(uid n \<mapsto> \<lparr> hdata = n, children = [], edge_info = None \<rparr>)) nodes Map.empty"

text \<open>
  The body of \<^verbatim>\<open>edges.forEach\<close> has two parts. The first records the target in
  \<open>childrenUids\<close>, when the target is truthy. The second attaches the child when both
  ends are in \<open>nodeMap\<close>; when source and target are the same uid, \<open>parent\<close> and
  \<open>child\<close> are the same object, and the push sees the \<^verbatim>\<open>_edge_info\<close> just written.
\<close>

definition noteTarget :: "edge \<Rightarrow> uid set \<Rightarrow> uid set" where
  "noteTarget e childrenUids =
     (if truthy (target e) then insert (target e) childrenUids else childrenUids)"

definition attachChild :: "edge \<Rightarrow> nodeMap \<Rightarrow> nodeMap" where
  "attachChild e nodeMap =
     (case nodeMap (source e) of
        None \<Rightarrow> nodeMap
      | Some parent \<Rightarrow>
          (case nodeMap (target e) of
             None \<Rightarrow> nodeMap
           | Some child \<Rightarrow>
               let child' = child\<lparr>edge_info := Some (edgeInfo (edge_label e))\<rparr>;
                   parent' = (if source e = target e then child' else parent)
               in nodeMap(target e \<mapsto> child',
                          source e \<mapsto> parent'\<lparr>children := children parent' @ [target e]\<rparr>)))"

definition addEdge :: "edge \<Rightarrow> uid set \<times> nodeMap \<Rightarrow> uid set \<times> nodeMap" where
  "addEdge e s = (case s of (childrenUids, nodeMap) \<Rightarrow>
     (noteTarget e childrenUids, attachChild e nodeMap))"

definition processEdges :: "node list \<Rightarrow> edge list \<Rightarrow> uid set \<times> nodeMap" where
  "processEdges nodes edges = fold addEdge edges ({}, initialNodeMap nodes)"

definition findRoots :: "node list \<Rightarrow> edge list \<Rightarrow> node list" where
  "findRoots nodes edges = filter (\<lambda>n. uid n \<notin> fst (processEdges nodes edges)) nodes"

text \<open>\<^verbatim>\<open>xs.join(', ')\<close>\<close>

fun join :: "string \<Rightarrow> string list \<Rightarrow> string" where
  "join sep [] = []"
| "join sep [x] = x"
| "join sep (x # y # ys) = x @ sep @ join sep (y # ys)"

text \<open>
  \<open>buildHierarchy\<close> returns the root object, or \<open>null\<close> after a message on the
  error stream: \<open>Inl\<close> carries that message, \<open>Inr\<close> the reference to the root
  object (its uid in \<open>nodeMap\<close>) together with the store it lives in.
\<close>

definition buildHierarchy :: "node list \<Rightarrow> edge list \<Rightarrow> string + uid \<times> nodeMap" where
  "buildHierarchy nodes edges =
     (if nodes = [] then Inl ''buildHierarchy: No nodes provided.''
      else case findRoots nodes edges of
             [r] \<Rightarrow> Inr (uid r, snd (processEdges nodes edges))
           | [] \<Rightarrow> Inl ''Error: No root node found.''
           | roots \<Rightarrow>
               Inl (''Error: Multiple root nodes found ('' @ join '', '' (map uid roots) @ '').''))"

subsection \<open>The d3 hierarchy\<close>

text \<open>
  \<^verbatim>\<open>d3.hierarchy\<close>, \<^verbatim>\<open>node.sort\<close>, \<^verbatim>\<open>node.descendants\<close> and \<^verbatim>\<open>node.links\<close> are
  functions of the d3-hierarchy library, modelled after their documented behaviour.
  \<^verbatim>\<open>d3.hierarchy(data)\<close> copies the object graph below \<open>data\<close> into a tree of
  fresh nodes, following the \<open>children\<close> arrays; on a graph with a cycle it does not
  return. The fuel bounds the depth of the copy, and \<open>None\<close> says that the fuel
  did not suffice.
\<close>

datatype dnode = DNode (ddata: hnode) (dchildren: "dnode list")

fun hierarchy :: "nat \<Rightarrow> nodeMap \<Rightarrow> uid \<Rightarrow> dnode option" where
  "hierarchy 0 m u = None"
| "hierarchy (Suc fuel) m u =
     (case m u of
        None \<Rightarrow> None
      | Some h \<Rightarrow> map_option (DNode h) (those (map (hierarchy fuel m) (children h))))"

text \<open>
  \<^verbatim>\<open>Array.prototype.sort(compare)\<close> is stable: an insertion sort that puts an element
  before the first one it does not compare greater than.
\<close>

fun insertSorted :: "('a \<Rightarrow> 'a \<Rightarrow> int) \<Rightarrow> 'a \<Rightarrow> 'a list \<Rightarrow> 'a list" where
  "insertSorted compare x [] = [x]"
| "insertSorted compare x (y # ys) =
     (if compare x y \<le> 0 then x # y # ys else y # insertSorted compare x ys)"

definition arraySort :: "('a \<Rightarrow> 'a \<Rightarrow> int) \<Rightarrow> 'a list \<Rightarrow> 'a list" where
  "arraySort compare xs = foldr (insertSorted compare) xs []"

lemma set_insertSorted: "set (insertSorted compare x ys) = insert x (set ys)"
  by (induction ys) auto

lemma set_arraySort: "set (arraySort compare xs) = set xs"
  by (induction xs) (simp_all add: arraySort_def set_insertSorted)

text \<open>\<^verbatim>\<open>node.sort(compare)\<close>: sorts the children of every node, parents first.\<close>

function sortTree :: "(dnode \<Rightarrow> dnode \<Rightarrow> int) \<Rightarrow> dnode \<Rightarrow> dnode" where
  "sortTree compare (DNode d cs) = DNode d (map (sortTree compare) (arraySort compare cs))"
  by pat_completeness auto
termination
proof (relation "measure (\<lambda>(compare, t). size t)")
  show "wf (measure (\<lambda>(compare, t). size t))" by simp
next
  fix compare :: "dnode \<Rightarrow> dnode \<Rightarrow> int" and d cs x
  assume "x \<in> set (arraySort compare cs)"
  then have "x \<in> set cs" by (simp add: set_arraySort)
  then have "size x < Suc (size_list size cs)"
    by (induction cs) auto
  then show "((compare, x), (compare, DNode d cs)) \<in> measure (\<lambda>(compare, t). size t)"
    by simp
qed

text \<open>The comparator handed to \<^verbatim>\<open>root.sort\<close>.\<close>

definition sortKey :: "dnode \<Rightarrow> int" where
  "sortKey a =
     (case edge_info (ddata a) of
        None \<Rightarrow> 1
      | Some ei \<Rightarrow> if is_true ei = False then 0 else 1)"

definition compareSiblings :: "dnode \<Rightarrow> dnode \<Rightarrow> int" where
  "compareSiblings a b = sortKey a - sortKey b"

text \<open>
  \<^verbatim>\<open>node.descendants()\<close> lists the nodes of the tree in breadth-first order;
  \<^verbatim>\<open>node.links()\<close> gives one link, from parent to child, for every node but the
  root, in the same order.
\<close>

function breadthFirst :: "dnode list \<Rightarrow> dnode list" where
  "breadthFirst [] = []"
| "breadthFirst (t # ts) = (t # ts) @ breadthFirst (concat (map dchildren (t # ts)))"
  by pat_completeness auto
termination
proof (relation "measure (\<lambda>ts. size_list size ts)")
  show "wf (measure (\<lambda>ts. size_list size ts))" by simp
next
  fix t :: dnode and ts
  have "size_list size (concat (map dchildren us)) + length us \<le> size_list size us" for us
  proof (induction us)
    case Nil
    then show ?case by simp
  next
    case (Cons u us)
    then show ?case by (cases u) (simp add: size_list_append)
  qed
  from this [of "t # ts"]
  show "(concat (map dchildren (t # ts)), t # ts) \<in> measure (\<lambda>ts. size_list size ts)"
    by simp
qed

definition descendants :: "dnode \<Rightarrow> dnode list" where
  "descendants rt = breadthFirst [rt]"

definition links :: "dnode \<Rightarrow> (dnode \<times> dnode) list" where
  "links rt = concat (map (\<lambda>p. map (\<lambda>c. (p, c)) (dchildren p)) (descendants rt))"

subsection \<open>Node sizes\<close>

text \<open>The body of the first \<^verbatim>\<open>root.each\<close>: the footprint of a node.\<close>

definition MONO_CHAR_WIDTH_PARSER :: real where
  "MONO_CHAR_WIDTH_PARSER = PARSER_FONT_SIZE * 0.6"

definition parserWidth :: "string option \<Rightarrow> real" where
  "parserWidth p =
     (if truthy_opt p then real (length (or_empty p)) * MONO_CHAR_WIDTH_PARSER + 16 else 0)"

definition hasExamples :: "string list option \<Rightarrow> bool" where
  "hasExamples xs = (case xs of None \<Rightarrow> False | Some l \<Rightarrow> length l > 0)"

definition examplesOf :: "string list option \<Rightarrow> string list" where
  "examplesOf xs = (case xs of None \<Rightarrow> [] | Some l \<Rightarrow> l)"

definition calculatedWidth :: "node \<Rightarrow> real" where
  "calculatedWidth n =
     (case n of
        Branch u lab \<Rightarrow>
          let labelWidth = real (length lab) * MONO_CHAR_WIDTH + 20
          in max MAIN_SHAPE_WIDTH (min labelWidth (MAIN_SHAPE_WIDTH * 2))
      | Leaf u ty p xs out \<Rightarrow>
          let typWidth = real (length (or_empty ty)) * MONO_CHAR_WIDTH + 20;
              maxContentWidth = max typWidth (parserWidth p)
          in max MAIN_SHAPE_WIDTH (min maxContentWidth (MAIN_SHAPE_WIDTH * 2)))"

definition calculatedHeight :: "node \<Rightarrow> real" where
  "calculatedHeight n =
     (case n of
        Branch u lab \<Rightarrow> MAIN_SHAPE_HEIGHT
      | Leaf u ty p xs out \<Rightarrow>
          MAIN_SHAPE_HEIGHT
          + (if truthy_opt p then LEAF_TO_PARSER_SPACE + PARSER_BOX_HEIGHT else 0)
          + (if hasExamples xs then real (length (examplesOf xs)) * INPUT_BOX_HEIGHT else 0)
          + (if truthy_opt out then LEAF_TO_OUTPUT_SPACE + OUTPUT_BOX_HEIGHT else 0))"

subsection \<open>Layout and canvas\<close>

text \<open>
  \<^verbatim>\<open>d3.tree().nodeSize(...)\<close> is library code: the positions it computes are a
  parameter of the model, a function from the node size and the hierarchy to the
  \<open>(x, y)\<close> of every node, in the order of \<open>descendants\<close>.
\<close>

type_synonym tree_layout = "real \<times> real \<Rightarrow> dnode \<Rightarrow> (real \<times> real) list"

definition d3max :: "real list \<Rightarrow> real" where
  "d3max xs = fold max (tl xs) (hd xs)"

definition layoutNodeSize :: "dnode \<Rightarrow> real \<times> real" where
  "layoutNodeSize rt =
     (d3max (map (\<lambda>d. calculatedWidth (hdata (ddata d))) (descendants rt)) * 1.1,
      d3max (map (\<lambda>d. calculatedHeight (hdata (ddata d))) (descendants rt)) * 1.0)"

text \<open>The second \<^verbatim>\<open>root.each\<close>: the bounding box \<open>(minX, maxX, minY, maxY)\<close>.\<close>

definition growBox ::
  "dnode \<times> real \<times> real \<Rightarrow> real \<times> real \<times> real \<times> real \<Rightarrow> real \<times> real \<times> real \<times> real" where
  "growBox dp box =
     (case dp of (d, x, y) \<Rightarrow> case box of (minX, maxX, minY, maxY) \<Rightarrow>
        let yTop = y - calculatedHeight (hdata (ddata d)) / 2;
            yBottom = y + calculatedHeight (hdata (ddata d)) / 2;
            nodeWidth = calculatedWidth (hdata (ddata d));
            xLeft = x - nodeWidth / 2;
            xRight = x + nodeWidth / 2
        in (if xLeft < minX then xLeft else minX, if xRight > maxX then xRight else maxX,
            if yTop < minY then yTop else minY, if yBottom > maxY then yBottom else maxY))"

definition boundingBox :: "tree_layout \<Rightarrow> dnode \<Rightarrow> real \<times> real \<times> real \<times> real" where
  "boundingBox treeLayout rt =
     fold growBox (zip (descendants rt) (treeLayout (layoutNodeSize rt) rt)) (0, 0, 0, 0)"

definition treeWidth :: "tree_layout \<Rightarrow> dnode \<Rightarrow> real" where
  "treeWidth treeLayout rt =
     (case boundingBox treeLayout rt of (minX, maxX, minY, maxY) \<Rightarrow> maxX - minX)"

definition treeHeight :: "tree_layout \<Rightarrow> dnode \<Rightarrow> real" where
  "treeHeight treeLayout rt =
     (case boundingBox treeLayout rt of (minX, maxX, minY, maxY) \<Rightarrow> maxY - minY)"

definition inputBlockHeight :: "string option \<Rightarrow> real" where
  "inputBlockHeight inp = (if truthy_opt inp then INPUT_BOX_HEIGHT + INPUT_TO_ROOT_SPACE else 0)"

definition finalSvgWidth :: "tree_layout \<Rightarrow> dnode \<Rightarrow> real" where
  "finalSvgWidth treeLayout rt = treeWidth treeLayout rt + MARGIN_left + MARGIN_right"

definition finalSvgHeight :: "tree_layout \<Rightarrow> dnode \<Rightarrow> string option \<Rightarrow> real" where
  "finalSvgHeight treeLayout rt inp =
     treeHeight treeLayout rt + inputBlockHeight inp + MARGIN_top + MARGIN_bottom"

subsection \<open>The scene\<close>

text \<open>
  The model keeps, for every element the script appends to the document, its text and
  its style attributes; the coordinates of the elements are left out. The \<open>filter\<close>
  style of a glowing box is a stack of drop shadows, each with a blur radius in pixels,
  a colour and an opacity.
\<close>

record drop_shadow =
  blur :: nat
  rgb :: "nat \<times> nat \<times> nat"
  opacity :: real

definition glowLayers :: "nat \<times> nat \<times> nat \<Rightarrow> drop_shadow list" where
  "glowLayers c =
     [\<lparr>blur = 8, rgb = c, opacity = 0.9\<rparr>, \<lparr>blur = 16, rgb = c, opacity = 0.7\<rparr>,
      \<lparr>blur = 28, rgb = c, opacity = 0.5\<rparr>, \<lparr>blur = 45, rgb = c, opacity = 0.3\<rparr>,
      \<lparr>blur = 65, rgb = c, opacity = 0.15\<rparr>]"

definition inputGlow :: "drop_shadow list" where
  "inputGlow = glowLayers (253, 255, 182)"

definition outputGlow :: "drop_shadow list" where
  "outputGlow = glowLayers (202, 255, 191)"

record box_style =
  box_fill :: string
  box_stroke :: string
  box_stroke_width :: real
  box_filter :: "drop_shadow list"

text \<open>\<^verbatim>\<open>`"${input}"`\<close>\<close>

definition quoted :: "string \<Rightarrow> string" where
  "quoted s = CHR 0x22 # s @ [CHR 0x22]"

record input_box =
  input_rect :: box_style
  input_text :: string
  input_font_weight :: string
  input_connector_width :: real

definition inputRect :: "uid set \<Rightarrow> box_style" where
  "inputRect highlightUidSet =
     (if highlightUidSet \<noteq> {}
      then \<lparr>box_fill = ''#fdffb6'', box_stroke = ''#000000'', box_stroke_width = 3,
             box_filter = inputGlow\<rparr>
      else \<lparr>box_fill = ''#fdffb6'', box_stroke = ''#000000'', box_stroke_width = BASE_PENWIDTH,
             box_filter = []\<rparr>)"

definition renderInput :: "uid set \<Rightarrow> string option \<Rightarrow> input_box option" where
  "renderInput highlightUidSet inp =
     (if truthy_opt inp
      then Some \<lparr>input_rect = inputRect highlightUidSet,
                 input_text = truncateText (quoted (or_empty inp)) (MAIN_SHAPE_WIDTH - 10),
                 input_font_weight = (if highlightUidSet \<noteq> {} then ''bold'' else ''normal''),
                 input_connector_width =
                   (if highlightUidSet \<noteq> {} then HIGHLIGHT_PENWIDTH_EDGE else BASE_PENWIDTH)\<rparr>
      else None)"

text \<open>Links: the connector with its arrowhead, and the label of the edge.\<close>

record link_render =
  link_source :: uid
  link_target :: uid
  link_stroke_width :: real
  link_marker_end :: string
  link_label_weight :: string
  link_label_fill :: string
  link_label_text :: string

definition isHighlightedEdge :: "uid set \<Rightarrow> dnode \<times> dnode \<Rightarrow> bool" where
  "isHighlightedEdge highlightUidSet d =
     (uid (hdata (ddata (fst d))) \<in> highlightUidSet
      \<and> uid (hdata (ddata (snd d))) \<in> highlightUidSet)"

definition labelFill :: "edge_info option \<Rightarrow> string" where
  "labelFill info =
     (case info of
        None \<Rightarrow> ''#000000''
      | Some i \<Rightarrow> if is_true i then ''#00AA00'' else if is_false i then ''#CC0000'' else ''#000000'')"

definition labelText :: "edge_info option \<Rightarrow> string" where
  "labelText info =
     (case info of
        None \<Rightarrow> []
      | Some i \<Rightarrow> if is_true i then ''True'' else if is_false i then ''False'' else info_label i)"

definition renderLink :: "uid set \<Rightarrow> dnode \<times> dnode \<Rightarrow> link_render" where
  "renderLink highlightUidSet d =
     \<lparr>link_source = uid (hdata (ddata (fst d))),
      link_target = uid (hdata (ddata (snd d))),
      link_stroke_width =
        (if isHighlightedEdge highlightUidSet d then HIGHLIGHT_PENWIDTH_EDGE else BASE_PENWIDTH),
      link_marker_end =
        (if isHighlightedEdge highlightUidSet d then ''url(#arrowhead-highlight)''
         else ''url(#arrowhead)''),
      link_label_weight = (if isHighlightedEdge highlightUidSet d then ''bold'' else ''normal''),
      link_label_fill = labelFill (edge_info (ddata (snd d))),
      link_label_text = labelText (edge_info (ddata (snd d)))\<rparr>"

text \<open>
  The output of a leaf is matched against \<^verbatim>\<open>/^([^(]+)\(([^)]*)\)$/\<close>. The first group
  cannot hold an opening parenthesis and is followed by one, so it is the text before the
  first opening parenthesis; what follows that parenthesis is the second group and a
  closing parenthesis, at the end of the string.
\<close>

definition matchOutput :: "string \<Rightarrow> (string \<times> string) option" where
  "matchOutput s =
     (let typeText = takeWhile (\<lambda>c. c \<noteq> CHR ''('') s;
          rest = dropWhile (\<lambda>c. c \<noteq> CHR ''('') s
      in if typeText = [] \<or> rest = [] then None
         else let body = tl rest
              in if body = [] then None
                 else if last body = CHR '')'' \<and> CHR '')'' \<notin> set (butlast body)
                      then Some (typeText, butlast body)
                      else None)"

datatype output_render =
    Structured (output_rect: box_style) (type_text: string) (value_text: string)
      (value_box_width: real) (total_width: real) (output_font_weight: string)
  | PlainText (plain_text: string)

record output_box =
  output_content :: output_render
  output_connector_width :: real

definition outputBgRect :: "bool \<Rightarrow> box_style" where
  "outputBgRect isHighlighted =
     (if isHighlighted
      then \<lparr>box_fill = ''white'', box_stroke = ''#000000'', box_stroke_width = 3,
             box_filter = outputGlow\<rparr>
      else \<lparr>box_fill = ''white'', box_stroke = ''#000000'', box_stroke_width = BASE_PENWIDTH,
             box_filter = []\<rparr>)"

definition renderOutput :: "bool \<Rightarrow> string option \<Rightarrow> output_box option" where
  "renderOutput isHighlighted out =
     (if truthy_opt out
      then Some
        \<lparr>output_content =
           (case matchOutput (or_empty out) of
              Some (typeText, valueText) \<Rightarrow>
                let spacing = 2;
                    typeBoxWidth = real (length typeText) * MONO_CHAR_WIDTH;
                    valueBoxWidth = min (real (length valueText) * MONO_CHAR_WIDTH) MAX_VALUE_WIDTH;
                    totalWidth = typeBoxWidth + spacing + MONO_CHAR_WIDTH + spacing
                                 + valueBoxWidth + spacing + MONO_CHAR_WIDTH + spacing
                in Structured (outputBgRect isHighlighted) typeText
                     (truncateText valueText (MAX_VALUE_WIDTH - 2)) valueBoxWidth totalWidth
                     (if isHighlighted then ''bold'' else ''normal'')
            | None \<Rightarrow> PlainText (or_empty out)),
         output_connector_width =
           (if isHighlighted then HIGHLIGHT_PENWIDTH_EDGE else BASE_PENWIDTH)\<rparr>
      else None)"

text \<open>The parser annotation and the example boxes of a leaf.\<close>

record parser_box =
  parser_rect :: box_style
  parser_box_width :: real
  parser_text :: string
  parser_connector_width :: real

definition renderParser :: "bool \<Rightarrow> real \<Rightarrow> string option \<Rightarrow> parser_box option" where
  "renderParser isHighlighted nodeWidth p =
     (if truthy_opt p
      then Some
        \<lparr>parser_rect =
           \<lparr>box_fill = ''#d6e4f1'', box_stroke = ''#000000'',
            box_stroke_width = (if isHighlighted then HIGHLIGHT_PENWIDTH_NODE else BASE_PENWIDTH),
            box_filter = []\<rparr>,
         parser_box_width =
           min (real (length (or_empty p)) * MONO_CHAR_WIDTH_PARSER + 16) nodeWidth,
         parser_text = or_empty p,
         parser_connector_width =
           (if isHighlighted then HIGHLIGHT_PENWIDTH_EDGE else BASE_PENWIDTH)\<rparr>
      else None)"

record example_box =
  example_stroke_width :: real
  example_text :: string

definition renderExamples :: "bool \<Rightarrow> real \<Rightarrow> string list option \<Rightarrow> example_box list" where
  "renderExamples isHighlighted nodeWidth xs =
     (if hasExamples xs
      then map (\<lambda>example.
             \<lparr>example_stroke_width =
                (if isHighlighted then HIGHLIGHT_PENWIDTH_EDGE else BASE_PENWIDTH),
              example_text = truncateText (quoted example) (nodeWidth - 10)\<rparr>) (examplesOf xs)
      else [])"

text \<open>The body of \<^verbatim>\<open>node.each\<close>: the shape of a node and, for a leaf, its stack.\<close>

record node_render =
  node_class :: string
  node_shape :: box_style
  node_text :: string
  node_examples :: "example_box list"
  node_parser :: "parser_box option"
  node_output :: "output_box option"

definition renderNode :: "uid set \<Rightarrow> dnode \<Rightarrow> node_render" where
  "renderNode highlightUidSet d =
     (let nodeData = hdata (ddata d);
          isHighlighted = (uid nodeData \<in> highlightUidSet);
          nodeWidth = calculatedWidth nodeData;
          penwidth = (if isHighlighted then HIGHLIGHT_PENWIDTH_NODE else BASE_PENWIDTH)
      in case nodeData of
           Branch u lab \<Rightarrow>
             \<lparr>node_class = ''node node--branch'',
              node_shape =
                \<lparr>box_fill = (if isHighlighted then ''#FFD700'' else ''#d6e4f1''),
                 box_stroke = ''#000000'', box_stroke_width = penwidth, box_filter = []\<rparr>,
              node_text = truncateText lab (nodeWidth - 10),
              node_examples = [], node_parser = None, node_output = None\<rparr>
         | Leaf u ty p xs out \<Rightarrow>
             \<lparr>node_class = ''node node--leaf'',
              node_shape =
                \<lparr>box_fill = ''#a0c4ff'', box_stroke = ''#000000'', box_stroke_width = penwidth,
                 box_filter = []\<rparr>,
              node_text = truncateText (or_empty ty) (nodeWidth - 10),
              node_examples = renderExamples isHighlighted nodeWidth xs,
              node_parser = renderParser isHighlighted nodeWidth p,
              node_output = renderOutput isHighlighted out\<rparr>)"

text \<open>The document written to standard output.\<close>

record svg =
  svg_width :: real
  svg_height :: real
  svg_input :: "input_box option"
  svg_links :: "link_render list"
  svg_nodes :: "node_render list"

definition renderSvg :: "tree_layout \<Rightarrow> uid set \<Rightarrow> string option \<Rightarrow> dnode \<Rightarrow> svg" where
  "renderSvg treeLayout highlightUidSet inp rt =
     \<lparr>svg_width = finalSvgWidth treeLayout rt,
      svg_height = finalSvgHeight treeLayout rt inp,
      svg_input = renderInput highlightUidSet inp,
      svg_links = map (renderLink highlightUidSet) (links rt),
      svg_nodes = map (renderNode highlightUidSet) (descendants rt)\<rparr>"

subsection \<open>Main execution\<close>

text \<open>
  The payload after \<^verbatim>\<open>JSON.parse\<close>: a missing property is \<open>None\<close>. A run of the
  script ends with an exit code, the documents written to standard output and the
  messages written to the error stream; \<open>None\<close> says that the fuel given to
  \<^verbatim>\<open>d3.hierarchy\<close> did not suffice.
\<close>

record branch_in =
  b_uid :: uid
  b_name :: string

record leaf_in =
  l_uid :: uid
  l_typ :: "string option"
  l_parser :: "string option"
  l_examples :: "string list option"
  l_output :: "string option"

record payload =
  p_branches :: "branch_in list option"
  p_leaves :: "leaf_in list option"
  p_edges :: "edge list option"
  p_highlights :: "uid list option"
  p_input :: "string option"

record run =
  exit_code :: int
  stdout :: "svg list"
  stderr :: "string list"

definition nodesOf :: "branch_in list \<Rightarrow> leaf_in list \<Rightarrow> node list" where
  "nodesOf bs ls =
     map (\<lambda>b. Branch (b_uid b) (b_name b)) bs
     @ map (\<lambda>l. Leaf (l_uid l) (l_typ l) (l_parser l) (l_examples l) (l_output l)) ls"

definition exit1 :: "string \<Rightarrow> run" where
  "exit1 message = \<lparr>exit_code = 1, stdout = [], stderr = [message]\<rparr>"

definition invalidInput :: string where
  "invalidInput =
     ''Invalid JSON input: requires 'branches', 'leaves', 'edges', and 'highlights' fields.''"

definition render_tree :: "tree_layout \<Rightarrow> nat \<Rightarrow> payload \<Rightarrow> run option" where
  "render_tree treeLayout fuel p =
     (case p_branches p of None \<Rightarrow> Some (exit1 invalidInput) | Some bs \<Rightarrow>
      case p_leaves p of None \<Rightarrow> Some (exit1 invalidInput) | Some ls \<Rightarrow>
      case p_edges p of None \<Rightarrow> Some (exit1 invalidInput) | Some es \<Rightarrow>
      case p_highlights p of None \<Rightarrow> Some (exit1 invalidInput) | Some hs \<Rightarrow>
        (case buildHierarchy (nodesOf bs ls) es of
           Inl message \<Rightarrow> Some (exit1 message)
         | Inr (r, nodeMap) \<Rightarrow>
             (case hierarchy fuel nodeMap r of
                None \<Rightarrow> None
              | Some rt \<Rightarrow>
                  Some \<lparr>exit_code = 0,
                        stdout = [renderSvg treeLayout (set hs) (p_input p)
                                    (sortTree compareSiblings rt)],
                        stderr = []\<rparr>)))"

subsection \<open>Facts about truncateText\<close>

lemma MONO_CHAR_WIDTH_value: "MONO_CHAR_WIDTH = 36 / 5"
  by (simp add: MONO_CHAR_WIDTH_def NODE_FONT_SIZE_def)

lemma ellipsisWidth_value: "ellipsisWidth = 3 * MONO_CHAR_WIDTH"
  by (simp add: ellipsisWidth_def ellipsis_def)

lemma ceiling_half: "\<lceil>real_of_int k / 2\<rceil> = (k + 1) div 2"
proof -
  have "\<exists>q. k = 2 * q \<or> k = 2 * q + 1" by presburger
  then obtain q where "k = 2 * q \<or> k = 2 * q + 1" ..
  then show ?thesis
  proof
    assume "k = 2 * q"
    then show ?thesis by simp
  next
    assume k: "k = 2 * q + 1"
    have "\<lceil>real_of_int q + 1 / 2\<rceil> = q + 1"
      by (rule ceiling_unique) simp_all
    with k show ?thesis by (simp add: add_divide_distrib)
  qed
qed

lemma leftChars_div: "leftChars w = (keepChars w + 1) div 2"
  by (simp add: leftChars_def ceiling_half)

lemma keepChars_fits: "real_of_int (keepChars w + 3) * MONO_CHAR_WIDTH \<le> w"
proof -
  have "real_of_int (keepChars w) \<le> (w - ellipsisWidth) / MONO_CHAR_WIDTH"
    by (simp add: keepChars_def)
  then have "real_of_int (keepChars w) * MONO_CHAR_WIDTH \<le> w - ellipsisWidth"
    by (simp add: MONO_CHAR_WIDTH_value)
  then show ?thesis
    by (simp add: ellipsisWidth_value algebra_simps)
qed

lemma too_long_exceeds_keep:
  assumes "\<not> real (length s) * MONO_CHAR_WIDTH \<le> w"
  shows "keepChars w + 3 < int (length s)"
proof -
  have "real_of_int (keepChars w + 3) * MONO_CHAR_WIDTH < real (length s) * MONO_CHAR_WIDTH"
    using keepChars_fits [of w] assms by linarith
  then have "real_of_int (keepChars w + 3) < real (length s)"
    by (simp add: MONO_CHAR_WIDTH_value)
  then show ?thesis by linarith
qed

lemma lastChars_drop: "n \<le> length s \<Longrightarrow> lastChars n s = drop (length s - n) s"
  by (simp add: lastChars_def take_rev)

lemma truncated_length:
  assumes long: "\<not> real (length s) * MONO_CHAR_WIDTH \<le> w" and k: "\<not> keepChars w \<le> 1"
  shows "int (length (truncateText s w)) = keepChars w + 3"
proof -
  have n: "keepChars w + 3 < int (length s)" using long by (rule too_long_exceeds_keep)
  have l: "0 \<le> leftChars w" "leftChars w \<le> keepChars w"
    using k by (simp_all add: leftChars_div)
  have "length (truncateText s w) =
      length (take (nat (leftChars w)) s) + 3
      + length (drop (nat (int (length s) - rightChars w)) s)"
    using long k by (simp add: truncateText_def substring_def substringFrom_def ellipsis_def)
  also have "int \<dots> = keepChars w + 3"
    using n l by (simp add: rightChars_def min_def)
  finally show ?thesis .
qed

lemma truncateText_examples:
  "truncateText ''abcdefghij'' 72 = ''abcdefghij''"
  "truncateText ''abcdefghij'' 50 = ''ab...j''"
  "truncateText ''abcdefghij'' 30 = ''...''"
  "truncateText ''abcdefghij'' 0 = ''...''"
  by (simp_all add: truncateText_def keepChars_def leftChars_div rightChars_def
      ellipsisWidth_value MONO_CHAR_WIDTH_value ellipsis_def substring_def substringFrom_def)

text \<open>
  Claim C5. For every string \<open>s\<close> and width \<open>w\<close>, \<open>truncateText\<close> follows the
  truncation rule of the specification: \<open>s\<close> is returned unchanged when
  \<open>length s * charWidth \<le> w\<close>; otherwise, with \<open>k = \<lfloor>(w - ellipsisWidth) / charWidth\<rfloor>\<close>,
  only the ellipsis is returned when \<open>k \<le> 1\<close>, and else the first \<open>\<lceil>k/2\<rceil>\<close> and the
  last \<open>k - \<lceil>k/2\<rceil>\<close> characters are kept around \<open>...\<close>: the result has \<open>k + 3\<close>
  characters, and the front part is one longer than the back part exactly when \<open>k\<close>
  is odd.
\<close>

theorem truncateText_follows_rule:
  "truncateText s w = truncate_spec MONO_CHAR_WIDTH ellipsisWidth s w
   \<and> (if real (length s) * MONO_CHAR_WIDTH \<le> w then truncateText s w = s
      else if keepChars w \<le> 1 then truncateText s w = ''...''
      else truncateText s w
             = take (nat (leftChars w)) s @ ''...'' @ lastChars (nat (rightChars w)) s
           \<and> length (take (nat (leftChars w)) s) = nat (leftChars w)
           \<and> length (lastChars (nat (rightChars w)) s) = nat (rightChars w)
           \<and> leftChars w + rightChars w = keepChars w
           \<and> leftChars w = rightChars w + (if odd (keepChars w) then 1 else 0))"
proof -
  have spec: "truncateText s w = truncate_spec MONO_CHAR_WIDTH ellipsisWidth s w"
  proof (cases "real (length s) * MONO_CHAR_WIDTH \<le> w")
    case True
    then show ?thesis by (simp add: truncateText_def truncate_spec_def Let_def)
  next
    case long: False
    show ?thesis
    proof (cases "keepChars w \<le> 1")
      case True
      then show ?thesis
        using long by (simp add: truncateText_def truncate_spec_def Let_def keepChars_def ellipsis_def)
    next
      case False
      have n: "keepChars w + 3 < int (length s)" using long by (rule too_long_exceeds_keep)
      have r: "0 \<le> rightChars w" "rightChars w \<le> keepChars w"
        using False by (simp_all add: rightChars_def leftChars_div)
      have "nat (rightChars w) \<le> length s" using n r by linarith
      then have "lastChars (nat (rightChars w)) s = drop (length s - nat (rightChars w)) s"
        by (rule lastChars_drop)
      moreover have "length s - nat (rightChars w) = nat (int (length s) - rightChars w)"
        using r by linarith
      ultimately show ?thesis
        using long False
        by (simp add: truncateText_def truncate_spec_def Let_def substring_def substringFrom_def
            ellipsis_def keepChars_def [symmetric] leftChars_def [symmetric]
            rightChars_def [symmetric])
    qed
  qed
  have parts: "leftChars w + rightChars w = keepChars w
      \<and> leftChars w = rightChars w + (if odd (keepChars w) then 1 else 0)"
    by (simp add: rightChars_def leftChars_div) presburger
  have lens: "length (take (nat (leftChars w)) s) = nat (leftChars w)
      \<and> length (lastChars (nat (rightChars w)) s) = nat (rightChars w)"
    if long: "\<not> real (length s) * MONO_CHAR_WIDTH \<le> w" and k: "\<not> keepChars w \<le> 1"
  proof -
    have n: "keepChars w + 3 < int (length s)" using long by (rule too_long_exceeds_keep)
    have "leftChars w \<le> keepChars w" "rightChars w \<le> keepChars w"
      using k by (simp_all add: rightChars_def leftChars_div)
    then have "nat (leftChars w) \<le> length s" "nat (rightChars w) \<le> length s"
      using n by linarith+
    then show ?thesis by (simp add: lastChars_def)
  qed
  have unfolded: "truncate_spec MONO_CHAR_WIDTH ellipsisWidth s w =
      (if real (length s) * MONO_CHAR_WIDTH \<le> w then s
       else if keepChars w \<le> 1 then ''...''
       else take (nat (leftChars w)) s @ ''...'' @ lastChars (nat (rightChars w)) s)"
    by (simp add: truncate_spec_def Let_def keepChars_def leftChars_def rightChars_def)
  show ?thesis
  proof (cases "real (length s) * MONO_CHAR_WIDTH \<le> w")
    case True
    then show ?thesis using spec unfolded by simp
  next
    case long: False
    show ?thesis
    proof (cases "keepChars w \<le> 1")
      case True
      then show ?thesis using long spec unfolded by simp
    next
      case False
      have eq: "truncateText s w
          = take (nat (leftChars w)) s @ ''...'' @ lastChars (nat (rightChars w)) s"
        using spec unfolded long False by simp
      show ?thesis
        unfolding if_not_P [OF long] if_not_P [OF False]
        using spec eq lens [OF long False] parts by blast
    qed
  qed
qed

text \<open>
  Claim C6. Truncation is idempotent under a fixed width: truncating an already
  truncated string to the same width returns it unchanged.
\<close>

theorem truncateText_idempotent:
  "truncateText (truncateText s w) w = truncateText s w"
proof (cases "real (length s) * MONO_CHAR_WIDTH \<le> w")
  case True
  then show ?thesis by (simp add: truncateText_def)
next
  case long: False
  show ?thesis
  proof (cases "keepChars w \<le> 1")
    case True
    then have "truncateText s w = ellipsis" using long by (simp add: truncateText_def)
    moreover have "truncateText ellipsis w = ellipsis"
      using True by (simp add: truncateText_def)
    ultimately show ?thesis by simp
  next
    case False
    have "int (length (truncateText s w)) = keepChars w + 3"
      using long False by (rule truncated_length)
    then have "real (length (truncateText s w)) = real_of_int (keepChars w + 3)"
      by (metis of_int_of_nat_eq)
    then have "real (length (truncateText s w)) * MONO_CHAR_WIDTH \<le> w"
      using keepChars_fits [of w] by simp
    then show ?thesis by (simp add: truncateText_def [of "truncateText s w"])
  qed
qed

subsection \<open>Facts about buildHierarchy\<close>

lemma fold_addEdge: "fold addEdge es (cu, m) = (fold noteTarget es cu, fold attachChild es m)"
  by (induction es arbitrary: cu m) (simp_all add: addEdge_def)

lemma fold_noteTarget: "fold noteTarget es cu = cu \<union> {t \<in> target ` set es. truthy t}"
  by (induction es arbitrary: cu) (auto simp: noteTarget_def)

lemma dom_attachChild: "dom (attachChild e m) = dom m"
  by (auto simp: attachChild_def Let_def split: option.splits)

lemma dom_fold_attachChild: "dom (fold attachChild es m) = dom m"
  by (induction es arbitrary: m) (simp_all add: dom_attachChild)

lemma attachChild_unresolved:
  "source e \<notin> dom m \<or> target e \<notin> dom m \<Longrightarrow> attachChild e m = m"
  by (auto simp: attachChild_def split: option.splits)

lemma attachChild_at:
  assumes "m u = Some h"
  shows "\<exists>h'. attachChild e m u = Some h' \<and> hdata h' = hdata h
           \<and> children h' = children h @ (if source e = u \<and> target e \<in> dom m then [target e] else [])"
  using assms by (auto simp: attachChild_def Let_def split: option.splits)

lemma fold_attachChild_at:
  assumes "m u = Some h"
  shows "\<exists>h'. fold attachChild es m u = Some h' \<and> hdata h' = hdata h
           \<and> children h' = children h @ map target (filter (\<lambda>e. source e = u \<and> target e \<in> dom m) es)"
  using assms
proof (induction es arbitrary: m h)
  case Nil
  then show ?case by simp
next
  case (Cons e es)
  from attachChild_at [of m u h e] Cons.prems obtain h1 where
    h1: "attachChild e m u = Some h1" "hdata h1 = hdata h"
      "children h1 = children h @ (if source e = u \<and> target e \<in> dom m then [target e] else [])"
    by blast
  from Cons.IH [of "attachChild e m" h1] h1 show ?case
    by (auto simp: dom_attachChild)
qed

lemma initialNodeMap_fold:
  "dom (fold (\<lambda>n m. m(uid n \<mapsto> \<lparr> hdata = n, children = [], edge_info = None \<rparr>)) nodes m0)
     = dom m0 \<union> uid ` set nodes"
  by (induction nodes arbitrary: m0) auto

lemma dom_initialNodeMap: "dom (initialNodeMap nodes) = uid ` set nodes"
  by (simp add: initialNodeMap_def initialNodeMap_fold)

lemma initialNodeMap_fold_at:
  "fold (\<lambda>n m. m(uid n \<mapsto> \<lparr> hdata = n, children = [], edge_info = None \<rparr>)) nodes m0 u = Some h
   \<Longrightarrow> m0 u = Some h \<or> (children h = [] \<and> uid (hdata h) = u \<and> edge_info h = None)"
proof (induction nodes arbitrary: m0)
  case Nil
  then show ?case by simp
next
  case (Cons a nodes)
  from Cons.IH [of "m0(uid a \<mapsto> \<lparr> hdata = a, children = [], edge_info = None \<rparr>)"] Cons.prems
  show ?case by (auto split: if_splits)
qed

lemma initialNodeMap_at:
  "initialNodeMap nodes u = Some h \<Longrightarrow> children h = [] \<and> uid (hdata h) = u"
  unfolding initialNodeMap_def using initialNodeMap_fold_at [of nodes Map.empty u h] by simp

subsection \<open>Proper trees\<close>

text \<open>
  The vocabulary of the round-trip property: a rooted tree of uids, the uids it holds
  and its parent-to-child edges. A node list and an edge list form a proper tree when the
  uids of the nodes are, in any order, the distinct uids of such a tree, and the edges
  are, in any order, its edges; there are then one edge less than nodes.
\<close>

datatype rtree = RNode (rroot: uid) (rkids: "rtree list")

fun ruids :: "rtree \<Rightarrow> uid list" where
  "ruids (RNode u ts) = u # concat (map ruids ts)"

fun redges :: "rtree \<Rightarrow> (uid \<times> uid) list" where
  "redges (RNode u ts) = map (\<lambda>t. (u, rroot t)) ts @ concat (map redges ts)"

fun subtrees :: "rtree \<Rightarrow> rtree list" where
  "subtrees (RNode u ts) = RNode u ts # concat (map subtrees ts)"

definition properTree :: "rtree \<Rightarrow> node list \<Rightarrow> edge list \<Rightarrow> bool" where
  "properTree t nodes edges =
     (distinct (ruids t)
      \<and> mset (map uid nodes) = mset (ruids t)
      \<and> mset (map (\<lambda>e. (source e, target e)) edges) = mset (redges t))"

fun dsize :: "dnode \<Rightarrow> nat" where
  "dsize (DNode h cs) = Suc (sum_list (map dsize cs))"

text \<open>The targets of the edges of a tree that leave a given uid, in edge order.\<close>

definition outL :: "rtree \<Rightarrow> uid \<Rightarrow> uid list" where
  "outL t u = map snd (filter (\<lambda>p. fst p = u) (redges t))"

lemma rroot_in_ruids: "rroot t \<in> set (ruids t)"
  by (cases t) simp

lemma ruids_eq: "ruids t = rroot t # concat (map ruids (rkids t))"
  by (cases t) simp

lemma outL_RNode:
  "outL (RNode v ts) u = (if u = v then map rroot ts else []) @ concat (map (\<lambda>t. outL t u) ts)"
proof -
  have "map snd (filter (\<lambda>p. fst p = u) (map (\<lambda>t. (v, rroot t)) ts))
      = (if u = v then map rroot ts else [])"
    by (induction ts) auto
  then show ?thesis
    by (simp add: outL_def filter_concat map_concat comp_def)
qed

lemma outL_notin: "u \<notin> set (ruids t) \<Longrightarrow> outL t u = []"
proof (induction t)
  case (RNode v ts)
  have "outL t u = []" if "t \<in> set ts" for t
    using RNode that by auto
  then have "concat (map (\<lambda>t. outL t u) ts) = []"
    by simp
  with RNode.prems show ?case by (simp add: outL_RNode)
qed

lemma concat_outL_Nil:
  "(\<And>t. t \<in> set xs \<Longrightarrow> u \<notin> set (ruids t)) \<Longrightarrow> concat (map (\<lambda>t. outL t u) xs) = []"
  by (induction xs) (auto simp: outL_notin)

lemma subtree_uid: "s \<in> set (subtrees t) \<Longrightarrow> rroot s \<in> set (ruids t)"
proof (induction t)
  case (RNode v ts)
  then show ?case by (auto simp: rroot_in_ruids)
qed

lemma outL_subtree:
  "distinct (ruids t) \<Longrightarrow> RNode u cs \<in> set (subtrees t) \<Longrightarrow> outL t u = map rroot cs"
proof (induction t)
  case (RNode v ts)
  have dist: "distinct (concat (map ruids ts))" and v: "v \<notin> set (concat (map ruids ts))"
    using RNode.prems(1) by simp_all
  show ?case
  proof (cases "RNode u cs = RNode v ts")
    case True
    have "outL t v = []" if "t \<in> set ts" for t
      using v that by (intro outL_notin) auto
    then have "concat (map (\<lambda>t. outL t v) ts) = []" by simp
    with True show ?thesis by (simp add: outL_RNode)
  next
    case False
    with RNode.prems(2) obtain tj where tj: "tj \<in> set ts" "RNode u cs \<in> set (subtrees tj)"
      by auto
    from tj(2) have utj: "u \<in> set (ruids tj)" using subtree_uid by fastforce
    with tj(1) v have uv: "u \<noteq> v" by auto
    from tj(1) obtain pre post where ts: "ts = pre @ tj # post" by (auto simp: in_set_conv_decomp)
    have dtj: "distinct (ruids tj)" using dist ts by simp
    have other: "u \<notin> set (ruids t)" if "t \<in> set pre \<union> set post" for t
      using dist ts utj that by auto
    have c1: "concat (map (\<lambda>t. outL t u) pre) = []"
      using other by (intro concat_outL_Nil) auto
    have c2: "concat (map (\<lambda>t. outL t u) post) = []"
      using other by (intro concat_outL_Nil) auto
    have "outL tj u = map rroot cs"
      using RNode.IH [OF tj(1) dtj tj(2)] .
    then show ?thesis using uv by (simp add: outL_RNode ts c1 c2)
  qed
qed

lemma those_map_Some:
  "(\<And>x. x \<in> set xs \<Longrightarrow> f x \<noteq> None) \<Longrightarrow> those (map f xs) = Some (map (\<lambda>x. the (f x)) xs)"
  by (induction xs) (auto split: option.splits)

lemma sum_list_mset_cong:
  fixes g :: "'a \<Rightarrow> nat"
  assumes "mset xs = mset ys"
  shows "sum_list (map g xs) = sum_list (map g ys)"
proof -
  have "sum_list (map g xs) = sum_mset (image_mset g (mset xs))"
    by (metis mset_map sum_mset_sum_list)
  also have "\<dots> = sum_mset (image_mset g (mset ys))" using assms by simp
  also have "\<dots> = sum_list (map g ys)"
    by (metis mset_map sum_mset_sum_list)
  finally show ?thesis .
qed

lemma hierarchy_of_tree:
  assumes "\<And>u cs. RNode u cs \<in> set (subtrees s)
             \<Longrightarrow> \<exists>h. m u = Some h \<and> mset (children h) = mset (map rroot cs)"
    and "length (ruids s) \<le> n"
  shows "\<exists>T. hierarchy n m (rroot s) = Some T \<and> dsize T = length (ruids s)"
  using assms
proof (induction s arbitrary: n)
  case (RNode v ts)
  from RNode.prems(1) [of v ts] obtain h where
    h: "m v = Some h" "mset (children h) = mset (map rroot ts)" by auto
  from RNode.prems(2) obtain n' where n: "n = Suc n'"
    and n': "sum_list (map (\<lambda>t. length (ruids t)) ts) \<le> n'"
    by (cases n) (auto simp: length_concat comp_def)
  have child: "\<exists>T. hierarchy n' m (rroot c) = Some T \<and> dsize T = length (ruids c)"
    if c: "c \<in> set ts" for c
  proof (rule RNode.IH [OF c])
    show "\<exists>h. m u = Some h \<and> mset (children h) = mset (map rroot cs)"
      if "RNode u cs \<in> set (subtrees c)" for u cs
      using RNode.prems(1) [of u cs] that c by auto
    have "length (ruids c) \<in> set (map (\<lambda>t. length (ruids t)) ts)"
      using c by auto
    then have "length (ruids c) \<le> sum_list (map (\<lambda>t. length (ruids t)) ts)"
      by (intro member_le_sum_list) auto
    then show "length (ruids c) \<le> n'"
      using n' by linarith
  qed
  let ?g = "\<lambda>x. the (hierarchy n' m x)"
  have set_eq: "set (children h) = rroot ` set ts"
    using h(2) by (metis mset_eq_setD set_map)
  have "hierarchy n' m x \<noteq> None" if "x \<in> set (children h)" for x
    using that set_eq child by auto
  then have th: "those (map (hierarchy n' m) (children h)) = Some (map ?g (children h))"
    by (rule those_map_Some)
  have "sum_list (map (\<lambda>x. dsize (?g x)) (children h))
      = sum_list (map (\<lambda>x. dsize (?g x)) (map rroot ts))"
    using h(2) by (rule sum_list_mset_cong)
  also have "\<dots> = sum_list (map (\<lambda>t. length (ruids t)) ts)"
  proof -
    have "dsize (?g (rroot c)) = length (ruids c)" if "c \<in> set ts" for c
      using child [OF that] by auto
    then show ?thesis by (simp add: comp_def cong: map_cong)
  qed
  finally have "sum_list (map (\<lambda>x. dsize (?g x)) (children h))
      = sum_list (map (\<lambda>t. length (ruids t)) ts)" .
  then show ?case
    using h(1) th n by (simp add: comp_def length_concat)
qed

lemma length_breadthFirst: "length (breadthFirst ts) = sum_list (map dsize ts)"
proof (induction ts rule: breadthFirst.induct)
  case 1
  then show ?case by simp
next
  case (2 t ts)
  have "sum_list (map dsize us) = length us + sum_list (map dsize (concat (map dchildren us)))"
    for us
  proof (induction us)
    case Nil
    then show ?case by simp
  next
    case (Cons u us)
    then show ?case by (cases u) simp
  qed
  from this [of "t # ts"] 2 show ?case by simp
qed

lemma length_descendants: "length (descendants T) = dsize T"
  by (cases T) (simp add: descendants_def length_breadthFirst)

lemma redges_targets: "snd ` set (redges t) = set (concat (map ruids (rkids t)))"
proof (induction t)
  case (RNode v ts)
  have A: "snd ` set (redges (RNode v ts)) = (\<Union>t\<in>set ts. insert (rroot t) (snd ` set (redges t)))"
    by (auto simp: image_Un image_UN image_image)
  have C: "insert (rroot t) (snd ` set (redges t)) = set (ruids t)" if "t \<in> set ts" for t
    using RNode.IH [OF that] by (cases t) auto
  have "(\<Union>t\<in>set ts. insert (rroot t) (snd ` set (redges t))) = (\<Union>t\<in>set ts. set (ruids t))"
    using C by (intro SUP_cong) auto
  with A show ?case by simp
qed

lemma filter_unique:
  "distinct (map f xs) \<Longrightarrow> r \<in> f ` set xs \<Longrightarrow> \<exists>x. filter (\<lambda>x. f x = r) xs = [x] \<and> f x = r"
proof (induction xs)
  case Nil
  then show ?case by simp
next
  case (Cons a xs)
  show ?case
  proof (cases "f a = r")
    case True
    have "f a \<notin> f ` set xs" using Cons.prems(1) by simp
    then have "\<forall>x\<in>set xs. f x \<noteq> r" unfolding True by (metis image_eqI)
    then have "filter (\<lambda>x. f x = r) xs = []"
      by (simp add: filter_empty_conv)
    with True show ?thesis by simp
  next
    case False
    with Cons show ?thesis by auto
  qed
qed

lemma processEdges_eq:
  "processEdges nodes edges
     = ({t \<in> target ` set edges. truthy t}, fold attachChild edges (initialNodeMap nodes))"
  by (simp add: processEdges_def fold_addEdge fold_noteTarget)

lemma children_after_edges:
  assumes "u \<in> uid ` set nodes"
  shows "\<exists>h. fold attachChild edges (initialNodeMap nodes) u = Some h
           \<and> children h = map target (filter (\<lambda>e. source e = u \<and> target e \<in> uid ` set nodes) edges)"
proof -
  from assms obtain h0 where h0: "initialNodeMap nodes u = Some h0"
    using dom_initialNodeMap [of nodes] by blast
  then have "children h0 = []" by (simp add: initialNodeMap_at)
  with fold_attachChild_at [of "initialNodeMap nodes" u h0 edges] h0 show ?thesis
    by (auto simp: dom_initialNodeMap)
qed

lemma mset_targets_from:
  assumes "mset (map (\<lambda>e. (source e, target e)) edges) = mset ps"
  shows "mset (map target (filter (\<lambda>e. source e = u) edges))
           = mset (map snd (filter (\<lambda>p. fst p = u) ps))"
proof -
  have "map target (filter (\<lambda>e. source e = u) edges)
      = map snd (filter (\<lambda>p. fst p = u) (map (\<lambda>e. (source e, target e)) edges))"
    by (induction edges) auto
  also have "mset \<dots> = image_mset snd (filter_mset (\<lambda>p. fst p = u)
      (mset (map (\<lambda>e. (source e, target e)) edges)))"
    by (simp only: mset_map mset_filter)
  also have "\<dots> = mset (map snd (filter (\<lambda>p. fst p = u) ps))"
    by (subst assms) (simp only: mset_map mset_filter)
  finally show ?thesis .
qed

lemma findRoots_eq:
  "findRoots nodes edges = filter (\<lambda>n. uid n \<notin> {t \<in> target ` set edges. truthy t}) nodes"
  by (simp add: findRoots_def processEdges_eq)

lemma store_children:
  "map_option children (snd (processEdges nodes edges) u)
     = (if u \<in> uid ` set nodes
        then Some (map target (filter (\<lambda>e. source e = u \<and> target e \<in> uid ` set nodes) edges))
        else None)"
proof (cases "u \<in> uid ` set nodes")
  case True
  from children_after_edges [OF True, of edges] True show ?thesis
    by (auto simp: processEdges_eq)
next
  case False
  then have "u \<notin> dom (fold attachChild edges (initialNodeMap nodes))"
    by (simp add: dom_fold_attachChild dom_initialNodeMap)
  then have "fold attachChild edges (initialNodeMap nodes) u = None" by blast
  with False show ?thesis by (simp add: processEdges_eq)
qed

lemma store_skips_unresolved:
  assumes "source e \<notin> uid ` set nodes \<or> target e \<notin> uid ` set nodes"
  shows "snd (processEdges nodes (es1 @ e # es2)) = snd (processEdges nodes (es1 @ es2))"
proof -
  let ?m = "fold attachChild es1 (initialNodeMap nodes)"
  have "dom ?m = uid ` set nodes"
    by (simp add: dom_fold_attachChild dom_initialNodeMap)
  with assms have "attachChild e ?m = ?m"
    by (intro attachChild_unresolved) simp
  then show ?thesis by (simp add: processEdges_eq)
qed

lemma unknown_target_no_effect:
  assumes "target e \<notin> uid ` set nodes"
  shows "buildHierarchy nodes (es1 @ e # es2) = buildHierarchy nodes (es1 @ es2)"
proof -
  have st: "snd (processEdges nodes (es1 @ e # es2)) = snd (processEdges nodes (es1 @ es2))"
    using assms by (intro store_skips_unresolved) simp
  have fr: "findRoots nodes (es1 @ e # es2) = findRoots nodes (es1 @ es2)"
    unfolding findRoots_eq using assms by (intro filter_cong) (auto simp: image_iff)
  show ?thesis unfolding buildHierarchy_def st fr by (rule refl)
qed

lemma properTree_counts:
  assumes "properTree t nodes edges"
  shows "length edges + 1 = length nodes"
proof -
  have "length (redges s) + 1 = length (ruids s)" for s
  proof (induction s)
    case (RNode v ts)
    have "Suc (length (redges t)) = length (ruids t)" if "t \<in> set ts" for t
      using RNode that by simp
    then have "map (\<lambda>t. Suc (length (redges t))) ts = map (\<lambda>t. length (ruids t)) ts"
      by (intro map_cong) auto
    moreover have "length xs + sum_list (map f xs) = sum_list (map (\<lambda>t. Suc (f t)) xs)"
      for f :: "rtree \<Rightarrow> nat" and xs
      by (induction xs) auto
    ultimately have "length ts + sum_list (map (\<lambda>t. length (redges t)) ts)
        = sum_list (map (\<lambda>t. length (ruids t)) ts)"
      by metis
    then show ?case
      by (simp add: length_concat comp_def)
  qed
  moreover have "length edges = length (redges t)" "length nodes = length (ruids t)"
    using assms unfolding properTree_def by (metis mset_eq_length length_map)+
  ultimately show ?thesis by simp
qed

lemma proper_tree_builds:
  assumes tree: "properTree t nodes edges"
    and truthy: "[] \<notin> target ` set edges"
  shows "\<exists>r m T. buildHierarchy nodes edges = Inr (r, m) \<and> r = rroot t
           \<and> hierarchy (length nodes) m r = Some T
           \<and> length (descendants T) = length nodes"
proof -
  from tree have dist: "distinct (ruids t)"
    and nodes: "mset (map uid nodes) = mset (ruids t)"
    and edges: "mset (map (\<lambda>e. (source e, target e)) edges) = mset (redges t)"
    by (simp_all add: properTree_def)
  let ?m = "fold attachChild edges (initialNodeMap nodes)"
  let ?rest = "set (concat (map ruids (rkids t)))"
  have known: "uid ` set nodes = set (ruids t)"
    using nodes by (metis mset_eq_setD set_map)
  have len: "length nodes = length (ruids t)"
    using nodes by (metis mset_eq_length length_map)
  have dnodes: "distinct (map uid nodes)"
    using nodes dist by (metis mset_eq_imp_distinct_iff)
  have "set (map (\<lambda>e. (source e, target e)) edges) = set (redges t)"
    using edges by (rule mset_eq_setD)
  then have "snd ` set (map (\<lambda>e. (source e, target e)) edges) = snd ` set (redges t)"
    by simp
  then have targets: "target ` set edges = ?rest"
    by (simp add: image_image redges_targets)
  have all_uids: "set (ruids t) = insert (rroot t) ?rest" and root_out: "rroot t \<notin> ?rest"
    using dist by (cases t, simp)+
  have "{x \<in> target ` set edges. truthy x} = ?rest"
    using truthy targets by (auto simp: truthy_def)
  then have cu: "fst (processEdges nodes edges) = ?rest"
    by (simp add: processEdges_eq)
  have "findRoots nodes edges = filter (\<lambda>n. uid n = rroot t) nodes"
    unfolding findRoots_def cu
    using known all_uids root_out by (intro filter_cong) auto
  moreover obtain n0 where "filter (\<lambda>n. uid n = rroot t) nodes = [n0]" "uid n0 = rroot t"
    using filter_unique [OF dnodes, of "rroot t"] known all_uids by auto
  ultimately have roots: "findRoots nodes edges = [n0]" "uid n0 = rroot t"
    by simp_all
  have "nodes \<noteq> []" using len by (cases t) auto
  with roots have built: "buildHierarchy nodes edges = Inr (rroot t, ?m)"
    by (simp add: buildHierarchy_def processEdges_eq)
  have store: "\<exists>h. ?m u = Some h \<and> mset (children h) = mset (map rroot cs)"
    if sub: "RNode u cs \<in> set (subtrees t)" for u cs
  proof -
    from subtree_uid [OF sub] have "u \<in> uid ` set nodes" by (simp add: known)
    from children_after_edges [OF this, of edges] obtain h where
      h: "?m u = Some h"
        "children h = map target (filter (\<lambda>e. source e = u \<and> target e \<in> uid ` set nodes) edges)"
      by blast
    have "filter (\<lambda>e. source e = u \<and> target e \<in> uid ` set nodes) edges
        = filter (\<lambda>e. source e = u) edges"
      using targets known all_uids by (intro filter_cong) auto
    with h(2) have "mset (children h) = mset (outL t u)"
      by (simp only: outL_def mset_targets_from [OF edges])
    also have "\<dots> = mset (map rroot cs)"
      using outL_subtree [OF dist sub] by simp
    finally show ?thesis using h(1) by blast
  qed
  from hierarchy_of_tree [of t ?m "length nodes"] store len
  obtain T where T: "hierarchy (length nodes) ?m (rroot t) = Some T" "dsize T = length (ruids t)"
    by auto
  from built T len show ?thesis
    by (simp add: length_descendants)
qed

subsection \<open>Example payloads\<close>

definition exTree :: rtree where
  "exTree = RNode ''b1'' [RNode ''l1'' [], RNode ''l2'' []]"

definition exNodes :: "node list" where
  "exNodes = [Leaf ''l2'' (Some ''string'') None None None,
              Branch ''b1'' ''is_number?'',
              Leaf ''l1'' (Some ''float'') None None (Some ''float(3.14)'')]"

definition exEdges :: "edge list" where
  "exEdges = [\<lparr>source = ''b1'', target = ''l2'', edge_label = Some ''false''\<rparr>,
              \<lparr>source = ''b1'', target = ''l1'', edge_label = Some ''true''\<rparr>]"

definition emptyUidNodes :: "node list" where
  "emptyUidNodes = [Branch ''a'' ''q'', Leaf [] None None None None]"

definition emptyUidEdges :: "edge list" where
  "emptyUidEdges = [\<lparr>source = ''a'', target = [], edge_label = None\<rparr>]"

definition nA :: node where "nA = Branch ''A'' ''a?''"
definition nB :: node where "nB = Leaf ''B'' (Some ''int'') None None (Some ''int(42)'')"
definition eAB :: edge where "eAB = \<lparr>source = ''A'', target = ''B'', edge_label = Some ''true''\<rparr>"
definition eXA :: edge where "eXA = \<lparr>source = ''X'', target = ''A'', edge_label = None\<rparr>"
definition eAY :: edge where "eAY = \<lparr>source = ''A'', target = ''Y'', edge_label = None\<rparr>"

subsection \<open>Root selection and edges with unknown uids\<close>

text \<open>
  Claim C1, as stated, fails: the target of an edge is recorded in \<open>childrenUids\<close>
  before the two ends are looked up, so an edge from an unknown source to a known node
  takes part in root selection. With the nodes \<open>A\<close> and \<open>B\<close> and the edge from
  \<open>A\<close> to \<open>B\<close> the root is \<open>A\<close>; with one more edge, from the unknown \<open>X\<close> to
  \<open>A\<close>, no root is found.
\<close>

theorem unknown_source_edge_changes_root:
  "source eXA \<notin> uid ` set [nA, nB]
   \<and> buildHierarchy [nA, nB] [eXA, eAB] = Inl ''Error: No root node found.''
   \<and> (\<exists>m. buildHierarchy [nA, nB] [eAB] = Inr (''A'', m))"
  by (simp add: buildHierarchy_def findRoots_eq nA_def nB_def eAB_def eXA_def truthy_def)

text \<open>
  Claim C1, amended. The roots are the nodes whose uid is not the truthy target of any
  edge, whether the ends of that edge are known or not, and \<open>buildHierarchy\<close> returns
  a root exactly when there is one such node, which it returns. A child is attached to its
  parent by the edges whose two ends are known uids, and by no other: the children of a
  node are the targets of those edges, in edge order. An edge whose target is unknown has
  no effect on the result at all, and an edge whose source is unknown leaves the built
  store as it is.
\<close>

theorem buildHierarchy_root_and_edges:
  "findRoots nodes edges = filter (\<lambda>n. uid n \<notin> {t \<in> target ` set edges. truthy t}) nodes
   \<and> ((\<exists>r m. buildHierarchy nodes edges = Inr (r, m)) = (\<exists>n. findRoots nodes edges = [n]))
   \<and> (buildHierarchy nodes edges = Inr (r, m)
        \<longrightarrow> (\<exists>n. findRoots nodes edges = [n] \<and> uid n = r) \<and> m = snd (processEdges nodes edges))
   \<and> map_option children (snd (processEdges nodes edges) u)
        = (if u \<in> uid ` set nodes
           then Some (map target (filter (\<lambda>e. source e = u \<and> target e \<in> uid ` set nodes) edges))
           else None)
   \<and> (target e \<notin> uid ` set nodes
        \<longrightarrow> buildHierarchy nodes (es1 @ e # es2) = buildHierarchy nodes (es1 @ es2))
   \<and> (source e \<notin> uid ` set nodes
        \<longrightarrow> snd (processEdges nodes (es1 @ e # es2)) = snd (processEdges nodes (es1 @ es2)))"
proof -
  have empty: "findRoots [] edges = []" by (simp add: findRoots_def)
  have A: "(\<exists>r m. buildHierarchy nodes edges = Inr (r, m)) = (\<exists>n. findRoots nodes edges = [n])"
    using empty by (auto simp: buildHierarchy_def split: list.splits)
  have B: "buildHierarchy nodes edges = Inr (r, m)
        \<longrightarrow> (\<exists>n. findRoots nodes edges = [n] \<and> uid n = r) \<and> m = snd (processEdges nodes edges)"
    by (auto simp: buildHierarchy_def split: list.splits if_splits)
  show ?thesis
    using findRoots_eq A B store_children unknown_target_no_effect
      store_skips_unresolved [of e nodes es1 es2]
    by (intro conjI impI) blast+
qed

theorem buildHierarchy_root_and_edges_witness:
  "buildHierarchy [nA, nB] [eAB] = Inr (''A'', snd (processEdges [nA, nB] [eAB]))
   \<and> (\<exists>n. findRoots [nA, nB] [eAB] = [n] \<and> uid n = ''A'')
   \<and> map_option children (snd (processEdges [nA, nB] [eXA, eAB, eAY]) ''A'') = Some [''B'']
   \<and> target eAY \<notin> uid ` set [nA, nB]
   \<and> buildHierarchy [nA, nB] ([eAB] @ eAY # []) = buildHierarchy [nA, nB] ([eAB] @ [])
   \<and> source eXA \<notin> uid ` set [nA, nB]
   \<and> snd (processEdges [nA, nB] ([] @ eXA # [eAB])) = snd (processEdges [nA, nB] ([] @ [eAB]))"
proof -
  have h1: "buildHierarchy [nA, nB] [eAB] = Inr (''A'', snd (processEdges [nA, nB] [eAB]))"
    by (simp add: buildHierarchy_def findRoots_eq nA_def nB_def eAB_def truthy_def)
  have h2: "target eAY \<notin> uid ` set [nA, nB]"
    by (simp add: nA_def nB_def eAY_def)
  have h3: "source eXA \<notin> uid ` set [nA, nB]"
    by (simp add: nA_def nB_def eXA_def)
  have k: "map target (filter (\<lambda>e. source e = ''A'' \<and> target e \<in> uid ` set [nA, nB]) [eXA, eAB, eAY]) = [''B'']"
    by (simp add: nA_def nB_def eXA_def eAB_def eAY_def)
  have u: "''A'' \<in> uid ` set [nA, nB]" by (simp add: nA_def)
  from buildHierarchy_root_and_edges [of "[nA, nB]" "[eXA, eAB, eAY]" "''A''"
      "snd (processEdges [nA, nB] [eXA, eAB, eAY])" "''A''" eAY "[eAB]" "[]"]
  have a: "map_option children (snd (processEdges [nA, nB] [eXA, eAB, eAY]) ''A'') = Some [''B'']"
    unfolding k using u by simp
  from buildHierarchy_root_and_edges [of "[nA, nB]" "[eAB]" "''A''"
      "snd (processEdges [nA, nB] [eAB])" "''A''" eAY "[eAB]" "[]"] h2
  have b: "buildHierarchy [nA, nB] ([eAB] @ eAY # []) = buildHierarchy [nA, nB] ([eAB] @ [])"
    by blast
  from buildHierarchy_root_and_edges [of "[nA, nB]" "[eAB]" "''A''"
      "snd (processEdges [nA, nB] [eAB])" "''A''" eXA "[]" "[eAB]"] h3
  have c: "snd (processEdges [nA, nB] ([] @ eXA # [eAB])) = snd (processEdges [nA, nB] ([] @ [eAB]))"
    by blast
  from buildHierarchy_root_and_edges [of "[nA, nB]" "[eAB]" "''A''"
      "snd (processEdges [nA, nB] [eAB])" "''A''" eXA "[]" "[eAB]"] h1
  have d: "\<exists>n. findRoots [nA, nB] [eAB] = [n] \<and> uid n = ''A''"
    by blast
  from h1 d a h2 b h3 c show ?thesis by (intro conjI)
qed

subsection \<open>Round trip of a proper tree\<close>

text \<open>
  Claim C3, as stated, fails on a proper tree in which a node other than the root has a
  falsy uid (the empty string): the edge into it attaches it, but its uid is not recorded
  in \<open>childrenUids\<close>, so it counts as a second root and \<open>buildHierarchy\<close>
  returns \<open>null\<close>.
\<close>

theorem falsy_uid_tree_has_no_root:
  "properTree (RNode ''a'' [RNode [] []]) emptyUidNodes emptyUidEdges
   \<and> length emptyUidEdges + 1 = length emptyUidNodes
   \<and> buildHierarchy emptyUidNodes emptyUidEdges = Inl ''Error: Multiple root nodes found (a, ).''"
  by (simp add: properTree_def emptyUidNodes_def emptyUidEdges_def buildHierarchy_def
      findRoots_def processEdges_eq truthy_def)

text \<open>
  Claim C3, amended. For every proper tree (it has \<open>N\<close> nodes and \<open>N - 1\<close> edges)
  in which no edge has a falsy (empty) target uid, \<open>buildHierarchy\<close> returns the root of
  the tree, \<^verbatim>\<open>d3.hierarchy\<close> returns on it (a fuel of \<open>N\<close> suffices), and the root
  has \<open>N\<close> descendants, itself included.
\<close>

theorem buildHierarchy_proper_tree:
  assumes "properTree t nodes edges" and "[] \<notin> target ` set edges"
  shows "length edges + 1 = length nodes
         \<and> (\<exists>r m T. buildHierarchy nodes edges = Inr (r, m) \<and> r = rroot t
               \<and> hierarchy (length nodes) m r = Some T
               \<and> length (descendants T) = length nodes)"
  using proper_tree_builds [OF assms] properTree_counts [OF assms(1)] by (intro conjI)

theorem buildHierarchy_proper_tree_witness:
  "properTree exTree exNodes exEdges \<and> [] \<notin> target ` set exEdges
   \<and> (\<exists>r m T. buildHierarchy exNodes exEdges = Inr (r, m) \<and> r = ''b1''
         \<and> hierarchy 3 m r = Some T \<and> length (descendants T) = 3)"
proof -
  have h1: "properTree exTree exNodes exEdges"
    by (simp add: properTree_def exTree_def exNodes_def exEdges_def)
  have h2: "[] \<notin> target ` set exEdges"
    by (simp add: exEdges_def)
  have l: "length exNodes = 3" by (simp add: exNodes_def)
  have r: "rroot exTree = ''b1''" by (simp add: exTree_def)
  from buildHierarchy_proper_tree [OF h1 h2]
  have "length exEdges + 1 = 3
         \<and> (\<exists>r m T. buildHierarchy exNodes exEdges = Inr (r, m) \<and> r = ''b1''
               \<and> hierarchy 3 m r = Some T \<and> length (descendants T) = 3)"
    unfolding l r .
  with h1 h2 show ?thesis by (intro conjI) blast+
qed

subsection \<open>More example payloads\<close>

text \<open>
  The example of the highlight property (nodes \<open>A\<close>, \<open>B\<close>, \<open>C\<close>, the edges from
  \<open>A\<close> to \<open>B\<close> and from \<open>B\<close> to \<open>C\<close>, highlights \<open>A\<close> and \<open>B\<close>), and the
  concrete scenario of the specification, with an output on the second leaf as well.
  \<open>originLayout\<close> is a layout that puts every node at the origin; the examples do not
  depend on it.
\<close>

definition abcPayload :: payload where
  "abcPayload =
     \<lparr>p_branches = Some [\<lparr>b_uid = ''A'', b_name = ''a?''\<rparr>, \<lparr>b_uid = ''B'', b_name = ''b?''\<rparr>],
      p_leaves = Some [\<lparr>l_uid = ''C'', l_typ = Some ''int'', l_parser = None, l_examples = None,
                        l_output = None\<rparr>],
      p_edges = Some [\<lparr>source = ''A'', target = ''B'', edge_label = Some ''true''\<rparr>,
                      \<lparr>source = ''B'', target = ''C'', edge_label = Some ''false''\<rparr>],
      p_highlights = Some [''A'', ''B''],
      p_input = None\<rparr>"

definition glowPayload :: payload where
  "glowPayload =
     \<lparr>p_branches = Some [\<lparr>b_uid = ''b1'', b_name = ''is_number?''\<rparr>],
      p_leaves = Some [\<lparr>l_uid = ''l1'', l_typ = Some ''float'', l_parser = None,
                        l_examples = None, l_output = Some ''float(3.14)''\<rparr>,
                       \<lparr>l_uid = ''l2'', l_typ = Some ''string'', l_parser = None,
                        l_examples = None, l_output = Some ''string(abc)''\<rparr>],
      p_edges = Some [\<lparr>source = ''b1'', target = ''l1'', edge_label = Some ''true''\<rparr>,
                      \<lparr>source = ''b1'', target = ''l2'', edge_label = Some ''false''\<rparr>],
      p_highlights = Some [''b1'', ''l1''],
      p_input = Some ''3.14''\<rparr>"

definition noEdgesPayload :: payload where
  "noEdgesPayload = glowPayload\<lparr>p_edges := None\<rparr>"

definition glowTree :: rtree where
  "glowTree = RNode ''b1'' [RNode ''l1'' [], RNode ''l2'' []]"

definition originLayout :: tree_layout where
  "originLayout nodeSize rt = map (\<lambda>d. (0, 0)) (descendants rt)"

lemmas build_simps = buildHierarchy_def findRoots_def processEdges_def addEdge_def noteTarget_def
  attachChild_def initialNodeMap_def nodesOf_def truthy_def Let_def edgeInfo_def or_empty_def
  toLowerCase_def lowerChar_def

lemmas tree_simps = descendants_def links_def arraySort_def compareSiblings_def sortKey_def

subsection \<open>Sibling order\<close>

text \<open>
  A child sorts as true-labelled when the comparator gives it the key 1: its
  \<^verbatim>\<open>_edge_info\<close> says \<open>is_true\<close> (or it has none, which no attached child does).
\<close>

definition sortsAsTrue :: "dnode \<Rightarrow> bool" where
  "sortsAsTrue c = (case edge_info (ddata c) of None \<Rightarrow> True | Some i \<Rightarrow> is_true i)"

lemma sortKey_cases: "sortKey c = (if sortsAsTrue c then 1 else 0)"
  by (simp add: sortKey_def sortsAsTrue_def split: option.splits)

lemma insertSorted_first:
  "\<not> sortsAsTrue c \<Longrightarrow> insertSorted compareSiblings c ys = c # ys"
  by (cases ys) (simp_all add: compareSiblings_def sortKey_cases)

lemma insertSorted_true:
  "sortsAsTrue c \<Longrightarrow> list_all (\<lambda>y. \<not> sortsAsTrue y) zs0 \<Longrightarrow> list_all sortsAsTrue zs1
   \<Longrightarrow> insertSorted compareSiblings c (zs0 @ zs1) = zs0 @ c # zs1"
proof (induction zs0)
  case Nil
  then show ?case by (cases zs1) (simp_all add: compareSiblings_def sortKey_cases)
next
  case (Cons z zs0)
  then show ?case by (simp add: compareSiblings_def sortKey_cases)
qed

lemma arraySort_partition:
  "arraySort compareSiblings cs = filter (\<lambda>c. \<not> sortsAsTrue c) cs @ filter sortsAsTrue cs"
proof (induction cs)
  case Nil
  then show ?case by (simp add: arraySort_def)
next
  case (Cons c cs)
  have step: "arraySort compareSiblings (c # cs)
      = insertSorted compareSiblings c (arraySort compareSiblings cs)"
    by (simp add: arraySort_def)
  show ?case
  proof (cases "sortsAsTrue c")
    case True
    have "insertSorted compareSiblings c
        (filter (\<lambda>c. \<not> sortsAsTrue c) cs @ filter sortsAsTrue cs)
        = filter (\<lambda>c. \<not> sortsAsTrue c) cs @ c # filter sortsAsTrue cs"
      using True by (intro insertSorted_true) (simp_all add: list_all_iff)
    with True show ?thesis by (simp add: step Cons.IH)
  next
    case False
    then show ?thesis by (simp add: step Cons.IH insertSorted_first)
  qed
qed

lemma attachChild_info_at:
  assumes "m u = Some h"
  shows "\<exists>h'. attachChild e m u = Some h'
           \<and> edge_info h' = (if target e = u \<and> source e \<in> dom m
                              then Some (edgeInfo (edge_label e)) else edge_info h)"
  using assms by (auto simp: attachChild_def Let_def split: option.splits)

lemma fold_attachChild_info_at:
  assumes "m u = Some h"
  shows "\<exists>h'. fold attachChild es m u = Some h'
           \<and> edge_info h' =
               (let xs = filter (\<lambda>e. target e = u \<and> source e \<in> dom m) es
                in if xs = [] then edge_info h else Some (edgeInfo (edge_label (last xs))))"
proof (induction es rule: rev_induct)
  case Nil
  then show ?case using assms by simp
next
  case (snoc e es)
  then obtain h1 where h1: "fold attachChild es m u = Some h1"
    "edge_info h1 =
       (let xs = filter (\<lambda>e. target e = u \<and> source e \<in> dom m) es
        in if xs = [] then edge_info h else Some (edgeInfo (edge_label (last xs))))"
    by blast
  from attachChild_info_at [of "fold attachChild es m" u h1 e] h1(1)
  obtain h' where h': "attachChild e (fold attachChild es m) u = Some h'"
    "edge_info h' = (if target e = u \<and> source e \<in> dom m
                      then Some (edgeInfo (edge_label e)) else edge_info h1)"
    by (auto simp: dom_fold_attachChild)
  then show ?case using h1(2) by (simp add: Let_def)
qed

lemma initialNodeMap_info: "initialNodeMap nodes u = Some h \<Longrightarrow> edge_info h = None"
  unfolding initialNodeMap_def using initialNodeMap_fold_at [of nodes Map.empty u h] by simp

lemma store_edge_info:
  "map_option edge_info (snd (processEdges nodes edges) u)
     = (if u \<in> uid ` set nodes
        then Some (let xs = filter (\<lambda>e. target e = u \<and> source e \<in> uid ` set nodes) edges
                   in if xs = [] then None else Some (edgeInfo (edge_label (last xs))))
        else None)"
proof (cases "u \<in> uid ` set nodes")
  case True
  then obtain h0 where h0: "initialNodeMap nodes u = Some h0"
    using dom_initialNodeMap [of nodes] by blast
  from fold_attachChild_info_at [of "initialNodeMap nodes" u h0 edges] h0
    initialNodeMap_info [of nodes u h0] True
  show ?thesis by (auto simp: processEdges_eq dom_initialNodeMap Let_def)
next
  case False
  then have "u \<notin> dom (fold attachChild edges (initialNodeMap nodes))"
    by (simp add: dom_fold_attachChild dom_initialNodeMap)
  then have "fold attachChild edges (initialNodeMap nodes) u = None" by blast
  with False show ?thesis by (simp add: processEdges_eq)
qed

text \<open>
  The children of a node are in order when those that are not true-labelled come first;
  \<open>everyNode\<close> says that a property holds at every node of a hierarchy.
\<close>

definition falseFirst :: "dnode \<Rightarrow> bool" where
  "falseFirst n =
     (dchildren n = filter (\<lambda>c. \<not> sortsAsTrue c) (dchildren n) @ filter sortsAsTrue (dchildren n))"

fun everyNode :: "(dnode \<Rightarrow> bool) \<Rightarrow> dnode \<Rightarrow> bool" where
  "everyNode P (DNode d cs) = (P (DNode d cs) \<and> list_all (everyNode P) cs)"

lemma ddata_sortTree: "ddata (sortTree compare t) = ddata t"
  by (cases t) simp

lemma sortsAsTrue_sortTree: "sortsAsTrue (sortTree compare t) = sortsAsTrue t"
  by (simp add: sortsAsTrue_def ddata_sortTree)

lemma sorted_everywhere: "everyNode falseFirst (sortTree compareSiblings t)"
proof (induction t)
  case (DNode d cs)
  let ?s = "sortTree compareSiblings"
  let ?cs = "filter (\<lambda>c. \<not> sortsAsTrue c) cs @ filter sortsAsTrue cs"
  have sorted: "arraySort compareSiblings cs = ?cs" by (rule arraySort_partition)
  have f0: "filter (\<lambda>c. \<not> sortsAsTrue c) (map ?s ?cs) = map ?s (filter (\<lambda>c. \<not> sortsAsTrue c) cs)"
    by (simp add: filter_map comp_def sortsAsTrue_sortTree)
  have f1: "filter sortsAsTrue (map ?s ?cs) = map ?s (filter sortsAsTrue cs)"
    by (simp add: filter_map comp_def sortsAsTrue_sortTree)
  have here: "falseFirst (DNode d (map ?s ?cs))"
    unfolding falseFirst_def dnode.sel f0 f1 by simp
  have below: "list_all (everyNode falseFirst) (map ?s ?cs)"
    using DNode.IH by (auto simp: list_all_iff)
  from here below show ?case by (simp add: sorted del: map_append)
qed

text \<open>
  Claim C7. After \<^verbatim>\<open>root.sort\<close>, the children of every node are its children that are
  not true-labelled (the inbound edge label is \<open>false\<close>, a custom key or missing), in
  their insertion order, followed by its true-labelled children, in their insertion order;
  so at every node of the sorted hierarchy the children that are not true-labelled come
  before the true-labelled ones. The label is compared case insensitively, and the
  \<^verbatim>\<open>_edge_info\<close> of a node is the one written by the last edge that attached it (in a
  tree, its one inbound edge).
\<close>

theorem siblings_sorted:
  "sortTree compareSiblings (DNode d cs)
     = DNode d (map (sortTree compareSiblings)
         (filter (\<lambda>c. \<not> sortsAsTrue c) cs @ filter sortsAsTrue cs))
   \<and> everyNode falseFirst (sortTree compareSiblings t)
   \<and> sortsAsTrue (DNode ch gs) = (case edge_info ch of None \<Rightarrow> True | Some i \<Rightarrow> is_true i)
   \<and> is_true (edgeInfo l) = (toLowerCase (or_empty l) = ''true'')
   \<and> is_false (edgeInfo l) = (toLowerCase (or_empty l) = ''false'')
   \<and> is_custom (edgeInfo l)
     = (toLowerCase (or_empty l) \<noteq> ''true'' \<and> toLowerCase (or_empty l) \<noteq> ''false'')
   \<and> map_option edge_info (snd (processEdges nodes edges) u)
     = (if u \<in> uid ` set nodes
        then Some (let xs = filter (\<lambda>e. target e = u \<and> source e \<in> uid ` set nodes) edges
                   in if xs = [] then None else Some (edgeInfo (edge_label (last xs))))
        else None)"
  using sorted_everywhere [of t] store_edge_info [of nodes edges u]
  by (simp add: arraySort_partition sortsAsTrue_def edgeInfo_def Let_def del: map_append)

subsection \<open>Highlighted edges\<close>

definition linkSummary :: "link_render \<Rightarrow> uid \<times> uid \<times> real \<times> string" where
  "linkSummary l = (link_source l, link_target l, link_stroke_width l, link_marker_end l)"

lemma abc_links:
  "map_option (\<lambda>r. map (\<lambda>doc. map linkSummary (svg_links doc)) (stdout r))
     (render_tree L 3 abcPayload)
   = Some [[(''A'', ''B'', HIGHLIGHT_PENWIDTH_EDGE, ''url(#arrowhead-highlight)''),
            (''B'', ''C'', BASE_PENWIDTH, ''url(#arrowhead)'')]]"
  by (simp add: render_tree_def abcPayload_def build_simps numeral_3_eq_3 tree_simps
      renderSvg_def renderLink_def isHighlightedEdge_def linkSummary_def)

lemma penwidths_differ: "HIGHLIGHT_PENWIDTH_EDGE \<noteq> BASE_PENWIDTH"
  by (simp add: HIGHLIGHT_PENWIDTH_EDGE_def BASE_PENWIDTH_def)

text \<open>
  Claim C8. A link is drawn with the highlighted stroke width and the highlighted
  arrowhead if and only if the uid of its source and the uid of its target are both in
  the highlight set, and with the base stroke width and the plain arrowhead otherwise;
  the links of the document are the links of the hierarchy. With the nodes \<open>A\<close>,
  \<open>B\<close>, \<open>C\<close>, the highlight set \<open>{A, B}\<close> and the edges from \<open>A\<close> to \<open>B\<close> and
  from \<open>B\<close> to \<open>C\<close>, exactly the first link is highlighted.
\<close>

theorem edge_highlight:
  "((link_stroke_width (renderLink H d) = HIGHLIGHT_PENWIDTH_EDGE
      \<and> link_marker_end (renderLink H d) = ''url(#arrowhead-highlight)'')
     = (uid (hdata (ddata (fst d))) \<in> H \<and> uid (hdata (ddata (snd d))) \<in> H))
   \<and> ((link_stroke_width (renderLink H d) = BASE_PENWIDTH
      \<and> link_marker_end (renderLink H d) = ''url(#arrowhead)'')
     = (\<not> (uid (hdata (ddata (fst d))) \<in> H \<and> uid (hdata (ddata (snd d))) \<in> H)))
   \<and> svg_links (renderSvg L H inp rt) = map (renderLink H) (links rt)
   \<and> map_option (\<lambda>r. map (\<lambda>doc. map linkSummary (svg_links doc)) (stdout r))
        (render_tree L 3 abcPayload)
      = Some [[(''A'', ''B'', HIGHLIGHT_PENWIDTH_EDGE, ''url(#arrowhead-highlight)''),
               (''B'', ''C'', BASE_PENWIDTH, ''url(#arrowhead)'')]]"
  using penwidths_differ abc_links [of L]
  by (simp add: renderLink_def isHighlightedEdge_def renderSvg_def)

subsection \<open>Output parsing\<close>

lemma matchOutput_iff:
  "(matchOutput s = Some (t, v))
     = (s = t @ ''('' @ v @ '')'' \<and> t \<noteq> [] \<and> CHR ''('' \<notin> set t \<and> CHR '')'' \<notin> set v)"
proof
  assume m: "matchOutput s = Some (t, v)"
  let ?P = "\<lambda>c. c \<noteq> CHR ''(''"
  let ?rest = "dropWhile ?P s"
  from m have t: "t = takeWhile ?P s" and nz: "t \<noteq> []" and rest: "?rest \<noteq> []"
    and body: "tl ?rest \<noteq> []" "last (tl ?rest) = CHR '')''" "CHR '')'' \<notin> set (butlast (tl ?rest))"
    and v: "v = butlast (tl ?rest)"
    by (auto simp: matchOutput_def Let_def split: if_splits)
  from rest have "hd ?rest = CHR ''(''" using hd_dropWhile [of ?P s] by auto
  with rest have r: "?rest = CHR ''('' # tl ?rest" by (cases ?rest) auto
  have "s = takeWhile ?P s @ ?rest" by simp
  also have "\<dots> = t @ CHR ''('' # butlast (tl ?rest) @ [last (tl ?rest)]"
    using r body(1) t by (metis append_butlast_last_id)
  finally have "s = t @ ''('' @ v @ '')''" using body(2) v by simp
  moreover have "CHR ''('' \<notin> set t" unfolding t by (auto dest: set_takeWhileD)
  ultimately show "s = t @ ''('' @ v @ '')'' \<and> t \<noteq> [] \<and> CHR ''('' \<notin> set t \<and> CHR '')'' \<notin> set v"
    using nz body(3) v by simp
next
  let ?P = "\<lambda>c. c \<noteq> CHR ''(''"
  assume a: "s = t @ ''('' @ v @ '')'' \<and> t \<noteq> [] \<and> CHR ''('' \<notin> set t \<and> CHR '')'' \<notin> set v"
  then have s: "s = t @ CHR ''('' # (v @ [CHR '')''])" by simp
  have tw: "takeWhile ?P s = t" unfolding s using a by (intro takeWhile_tail [THEN trans]) auto
  have dw: "dropWhile ?P s = CHR ''('' # (v @ [CHR '')''])"
    unfolding s using a by (subst dropWhile_append2) auto
  from a have "t \<noteq> []" "CHR '')'' \<notin> set v" by simp_all
  then show "matchOutput s = Some (t, v)"
    by (simp add: matchOutput_def Let_def tw dw)
qed

lemma renderOutput_content:
  "map_option output_content (renderOutput hl (Some s))
     = (if s = [] then None
        else case matchOutput s of
               Some (t, v) \<Rightarrow>
                 Some (Structured (outputBgRect hl) t (truncateText v (MAX_VALUE_WIDTH - 2))
                   (min (real (length v) * MONO_CHAR_WIDTH) MAX_VALUE_WIDTH)
                   (real (length t) * MONO_CHAR_WIDTH + 2 + MONO_CHAR_WIDTH + 2
                    + min (real (length v) * MONO_CHAR_WIDTH) MAX_VALUE_WIDTH + 2
                    + MONO_CHAR_WIDTH + 2)
                   (if hl then ''bold'' else ''normal''))
             | None \<Rightarrow> Some (PlainText s))"
  by (simp add: renderOutput_def truthy_opt_def truthy_def or_empty_def Let_def
      split: option.splits)

lemma matchOutput_examples:
  "matchOutput ''int(42)'' = Some (''int'', ''42'')"
  "matchOutput ''no-parens-here'' = None"
  by (simp_all add: matchOutput_def)

text \<open>
  Claim C9. The output of a leaf matches exactly when it is a non-empty type without an
  opening parenthesis, an opening parenthesis, a value without a closing parenthesis and
  a closing parenthesis. A non-empty output that matches is drawn as a type segment and
  a value segment, the type as it is and the value truncated to the fixed width of 298
  pixels; one that does not match is drawn as a single plain text, as it is. So
  \<open>int(42)\<close> gives the segments \<open>int\<close> and \<open>42\<close>, and \<open>no-parens-here\<close> a
  plain text.
\<close>

theorem output_parsing:
  "(matchOutput s = Some (t, v))
     = (s = t @ ''('' @ v @ '')'' \<and> t \<noteq> [] \<and> CHR ''('' \<notin> set t \<and> CHR '')'' \<notin> set v)
   \<and> map_option output_content (renderOutput hl (Some s))
     = (if s = [] then None
        else case matchOutput s of
               Some (t, v) \<Rightarrow>
                 Some (Structured (outputBgRect hl) t (truncateText v (MAX_VALUE_WIDTH - 2))
                   (min (real (length v) * MONO_CHAR_WIDTH) MAX_VALUE_WIDTH)
                   (real (length t) * MONO_CHAR_WIDTH + 2 + MONO_CHAR_WIDTH + 2
                    + min (real (length v) * MONO_CHAR_WIDTH) MAX_VALUE_WIDTH + 2
                    + MONO_CHAR_WIDTH + 2)
                   (if hl then ''bold'' else ''normal''))
             | None \<Rightarrow> Some (PlainText s))
   \<and> node_output (renderNode H (DNode \<lparr>hdata = Leaf u ty p xs out, children = cs, edge_info = i\<rparr> ds))
     = renderOutput (u \<in> H) out
   \<and> MAX_VALUE_WIDTH - 2 = 298
   \<and> matchOutput ''int(42)'' = Some (''int'', ''42'')
   \<and> map_option output_content (renderOutput hl (Some ''int(42)''))
     = Some (Structured (outputBgRect hl) ''int'' ''42'' (2 * MONO_CHAR_WIDTH)
         (7 * MONO_CHAR_WIDTH + 8) (if hl then ''bold'' else ''normal''))
   \<and> matchOutput ''no-parens-here'' = None
   \<and> map_option output_content (renderOutput hl (Some ''no-parens-here''))
     = Some (PlainText ''no-parens-here'')"
proof -
  have "truncateText ''42'' (MAX_VALUE_WIDTH - 2) = ''42''"
    by (simp add: truncateText_def MONO_CHAR_WIDTH_value MAX_VALUE_WIDTH_def)
  moreover have "min (2 * MONO_CHAR_WIDTH) MAX_VALUE_WIDTH = 2 * MONO_CHAR_WIDTH"
    by (simp add: MONO_CHAR_WIDTH_value MAX_VALUE_WIDTH_def)
  ultimately show ?thesis
    using matchOutput_iff [of s t v] renderOutput_content [of hl s]
    by (simp add: renderOutput_content matchOutput_examples renderNode_def Let_def
        MAX_VALUE_WIDTH_def)
qed

subsection \<open>Glow\<close>

definition outputGlows :: "node_render \<Rightarrow> bool" where
  "outputGlows r =
     (case node_output r of
        None \<Rightarrow> False
      | Some b \<Rightarrow>
          (case output_content b of
             Structured rect t v vw tw fw \<Rightarrow> box_filter rect = outputGlow
           | PlainText t \<Rightarrow> False))"

definition inputGlows :: "svg \<Rightarrow> bool" where
  "inputGlows doc =
     (case svg_input doc of None \<Rightarrow> False | Some b \<Rightarrow> box_filter (input_rect b) = inputGlow)"

definition structuredOutput :: "node \<Rightarrow> bool" where
  "structuredOutput n =
     (case n of
        Branch u lab \<Rightarrow> False
      | Leaf u ty p xs out \<Rightarrow> truthy_opt out \<and> matchOutput (or_empty out) \<noteq> None)"

definition nodeSummary :: "node_render \<Rightarrow> string \<times> bool \<times> bool" where
  "nodeSummary n =
     (node_text n,
      (case node_output n of
         None \<Rightarrow> False
       | Some b \<Rightarrow> (case output_content b of Structured rect t v vw tw fw \<Rightarrow> True
                     | PlainText t \<Rightarrow> False)),
      outputGlows n)"

lemma glow_nonempty: "inputGlow \<noteq> []" "outputGlow \<noteq> []"
  by (simp_all add: inputGlow_def outputGlow_def glowLayers_def)

lemma inputGlows_iff: "inputGlows (renderSvg L H inp rt) = (truthy_opt inp \<and> H \<noteq> {})"
  using glow_nonempty(1)
  by (auto simp: inputGlows_def renderSvg_def renderInput_def inputRect_def)

lemma outputGlows_iff:
  "outputGlows (renderNode H d) = (structuredOutput (hdata (ddata d)) \<and> uid (hdata (ddata d)) \<in> H)"
  using glow_nonempty(2)
  by (auto simp: outputGlows_def renderNode_def renderOutput_def outputBgRect_def
      structuredOutput_def Let_def split: node.splits option.splits)

text \<open>
  Claim C2, as stated, fails for the output boxes: the glow of an output box is guarded
  by \<open>isHighlighted\<close>, the membership of that leaf in the highlight set. In the
  concrete scenario with highlights \<open>b1\<close> and \<open>l1\<close>, the input box glows and so does
  the structured output box of \<open>l1\<close>, but the structured output box of \<open>l2\<close>
  does not, although the highlight set is not empty.
\<close>

theorem unhighlighted_output_has_no_glow:
  "map_option (\<lambda>r. map (\<lambda>doc. (inputGlows doc, map nodeSummary (svg_nodes doc))) (stdout r))
     (render_tree originLayout 2 glowPayload)
   = Some [(True, [(''is_number?'', False, False), (''string'', True, False),
                   (''float'', True, True)])]
   \<and> p_highlights glowPayload = Some [''b1'', ''l1'']"
  using glow_nonempty
  apply (simp add: render_tree_def glowPayload_def build_simps numeral_2_eq_2 tree_simps
      renderSvg_def inputGlows_def renderInput_def inputRect_def truthy_opt_def)
  apply (simp add: renderNode_def nodeSummary_def outputGlows_def renderOutput_def outputBgRect_def matchOutput_def truthy_opt_def truthy_def or_empty_def Let_def)
  apply (simp add: truncateText_def calculatedWidth_def MONO_CHAR_WIDTH_value MAIN_SHAPE_WIDTH_def parserWidth_def truthy_opt_def or_empty_def)
  done

text \<open>
  Claim C2, amended. The input box, when there is one, has the glow exactly when the
  highlight set is not empty, whichever nodes are in it. The output box of a node has
  the glow exactly when the node is a leaf with a structured \<open>type(value)\<close> output
  and the uid of that leaf is in the highlight set. With an empty highlight set neither
  has a glow. The glow is a stack of five drop shadows of growing blur radius and
  falling opacity.
\<close>

theorem glow_emphasis:
  "inputGlows (renderSvg L H inp rt) = (truthy_opt inp \<and> H \<noteq> {})
   \<and> outputGlows (renderNode H d)
     = (structuredOutput (hdata (ddata d)) \<and> uid (hdata (ddata d)) \<in> H)
   \<and> box_filter (inputRect H) = (if H \<noteq> {} then inputGlow else [])
   \<and> box_filter (outputBgRect hl) = (if hl then outputGlow else [])
   \<and> map blur inputGlow = [8, 16, 28, 45, 65]
   \<and> map opacity inputGlow = [0.9, 0.7, 0.5, 0.3, 0.15]
   \<and> map blur outputGlow = [8, 16, 28, 45, 65]
   \<and> map opacity outputGlow = [0.9, 0.7, 0.5, 0.3, 0.15]"
  by (simp add: inputGlows_iff outputGlows_iff inputRect_def outputBgRect_def inputGlow_def
      outputGlow_def glowLayers_def)

subsection \<open>Empty optional fields\<close>

text \<open>
  Claim C10. An empty input is rendered as a missing one: the whole run is the same,
  there is no input box (and so no dashed connector from it), and the canvas height is
  the tree height and the margins, without the input band that a non-empty input
  reserves. A leaf whose parser, or whose output, is the empty string has the footprint
  of the leaf without it and is rendered as the leaf without it, with no parser
  annotation and no output annotation.
\<close>

theorem empty_optional_fields:
  "render_tree L fuel (p\<lparr>p_input := Some []\<rparr>) = render_tree L fuel (p\<lparr>p_input := None\<rparr>)
   \<and> svg_input (renderSvg L H (Some []) rt) = None
   \<and> svg_height (renderSvg L H (Some []) rt) = treeHeight L rt + MARGIN_top + MARGIN_bottom
   \<and> svg_height (renderSvg L H (Some (c # s)) rt)
     = treeHeight L rt + (INPUT_BOX_HEIGHT + INPUT_TO_ROOT_SPACE) + MARGIN_top + MARGIN_bottom
   \<and> calculatedHeight (Leaf u ty (Some []) xs out) = calculatedHeight (Leaf u ty None xs out)
   \<and> calculatedWidth (Leaf u ty (Some []) xs out) = calculatedWidth (Leaf u ty None xs out)
   \<and> calculatedHeight (Leaf u ty q xs (Some [])) = calculatedHeight (Leaf u ty q xs None)
   \<and> calculatedWidth (Leaf u ty q xs (Some [])) = calculatedWidth (Leaf u ty q xs None)
   \<and> renderNode H (DNode (h\<lparr>hdata := Leaf u ty (Some []) xs out\<rparr>) ds)
     = renderNode H (DNode (h\<lparr>hdata := Leaf u ty None xs out\<rparr>) ds)
   \<and> renderNode H (DNode (h\<lparr>hdata := Leaf u ty q xs (Some [])\<rparr>) ds)
     = renderNode H (DNode (h\<lparr>hdata := Leaf u ty q xs None\<rparr>) ds)
   \<and> node_parser (renderNode H (DNode (h\<lparr>hdata := Leaf u ty (Some []) xs out\<rparr>) ds)) = None
   \<and> node_output (renderNode H (DNode (h\<lparr>hdata := Leaf u ty q xs (Some [])\<rparr>) ds)) = None"
proof -
  have i: "renderSvg L' H' (Some []) rt' = renderSvg L' H' None rt'" for L' H' rt'
    by (simp add: renderSvg_def finalSvgHeight_def inputBlockHeight_def renderInput_def
        truthy_opt_def truthy_def)
  have r: "render_tree L fuel (p\<lparr>p_input := Some []\<rparr>) = render_tree L fuel (p\<lparr>p_input := None\<rparr>)"
    by (simp add: render_tree_def i split: option.splits sum.splits prod.splits)
  have hts: "calculatedHeight (Leaf u ty (Some []) xs out) = calculatedHeight (Leaf u ty None xs out)"
    "calculatedWidth (Leaf u ty (Some []) xs out) = calculatedWidth (Leaf u ty None xs out)"
    "calculatedHeight (Leaf u ty q xs (Some [])) = calculatedHeight (Leaf u ty q xs None)"
    "calculatedWidth (Leaf u ty q xs (Some [])) = calculatedWidth (Leaf u ty q xs None)"
    by (simp_all add: calculatedHeight_def calculatedWidth_def parserWidth_def truthy_opt_def
        truthy_def)
  have n: "renderNode H (DNode (h\<lparr>hdata := Leaf u ty (Some []) xs out\<rparr>) ds)
      = renderNode H (DNode (h\<lparr>hdata := Leaf u ty None xs out\<rparr>) ds)"
    "renderNode H (DNode (h\<lparr>hdata := Leaf u ty q xs (Some [])\<rparr>) ds)
      = renderNode H (DNode (h\<lparr>hdata := Leaf u ty q xs None\<rparr>) ds)"
    "node_parser (renderNode H (DNode (h\<lparr>hdata := Leaf u ty (Some []) xs out\<rparr>) ds)) = None"
    "node_output (renderNode H (DNode (h\<lparr>hdata := Leaf u ty q xs (Some [])\<rparr>) ds)) = None"
    by (simp_all add: renderNode_def Let_def hts renderParser_def renderOutput_def
        truthy_opt_def truthy_def)
  have s: "svg_input (renderSvg L H (Some []) rt) = None"
    "svg_height (renderSvg L H (Some []) rt) = treeHeight L rt + MARGIN_top + MARGIN_bottom"
    "svg_height (renderSvg L H (Some (c # s)) rt)
     = treeHeight L rt + (INPUT_BOX_HEIGHT + INPUT_TO_ROOT_SPACE) + MARGIN_top + MARGIN_bottom"
    by (simp_all add: renderSvg_def finalSvgHeight_def inputBlockHeight_def renderInput_def
        truthy_opt_def truthy_def)
  from r hts n s show ?thesis by (intro conjI)
qed

subsection \<open>Fatal conditions\<close>

text \<open>
  The fatal conditions in the words of the specification: one of \<open>branches\<close>,
  \<open>leaves\<close>, \<open>edges\<close> and \<open>highlights\<close> is missing, the node list is empty, or
  the number of computed roots is not one.
\<close>

definition fatalCondition :: "payload \<Rightarrow> bool" where
  "fatalCondition p =
     (case p_branches p of None \<Rightarrow> True | Some bs \<Rightarrow>
      case p_leaves p of None \<Rightarrow> True | Some ls \<Rightarrow>
      case p_edges p of None \<Rightarrow> True | Some es \<Rightarrow>
      case p_highlights p of None \<Rightarrow> True | Some hs \<Rightarrow>
        nodesOf bs ls = [] \<or> length (findRoots (nodesOf bs ls) es) \<noteq> 1)"

lemma buildHierarchy_Inl_iff:
  "(\<exists>message. buildHierarchy nodes edges = Inl message)
     = (nodes = [] \<or> length (findRoots nodes edges) \<noteq> 1)"
  by (auto simp: buildHierarchy_def split: list.splits)

lemma render_fatal:
  "(\<exists>message. render_tree L fuel p = Some (exit1 message)) = fatalCondition p"
proof -
  have ne: "\<lparr>exit_code = 0, stdout = [d], stderr = []\<rparr> \<noteq> exit1 message" for d message
    by (simp add: exit1_def)
  show ?thesis
  proof (cases "\<exists>bs ls es hs. p_branches p = Some bs \<and> p_leaves p = Some ls
        \<and> p_edges p = Some es \<and> p_highlights p = Some hs")
    case True
    then obtain bs ls es hs where p: "p_branches p = Some bs" "p_leaves p = Some ls"
      "p_edges p = Some es" "p_highlights p = Some hs" by blast
    have f: "fatalCondition p = (\<exists>message. buildHierarchy (nodesOf bs ls) es = Inl message)"
      by (simp add: fatalCondition_def p buildHierarchy_Inl_iff)
    show ?thesis
      unfolding f
      by (cases "buildHierarchy (nodesOf bs ls) es")
        (auto simp: render_tree_def p ne exit1_def split: option.splits)
  next
    case False
    then show ?thesis
      by (auto simp: render_tree_def fatalCondition_def split: option.splits)
  qed
qed

lemma render_outcomes:
  "render_tree L fuel p = Some r
   \<Longrightarrow> (\<exists>message. r = exit1 message) \<or> (\<exists>doc. r = \<lparr>exit_code = 0, stdout = [doc], stderr = []\<rparr>)"
  by (auto simp: render_tree_def split: option.splits sum.splits)

lemma render_proper_tree:
  assumes "properTree t (nodesOf bs ls) es" and "[] \<notin> target ` set es"
  shows "\<exists>doc. render_tree L (length (nodesOf bs ls))
           \<lparr>p_branches = Some bs, p_leaves = Some ls, p_edges = Some es,
            p_highlights = Some hs, p_input = inp\<rparr>
         = Some \<lparr>exit_code = 0, stdout = [doc], stderr = []\<rparr>"
proof -
  from proper_tree_builds [OF assms] obtain r m T where
    "buildHierarchy (nodesOf bs ls) es = Inr (r, m)"
    "hierarchy (length (nodesOf bs ls)) m r = Some T"
    by blast
  then show ?thesis by (simp add: render_tree_def)
qed

text \<open>
  Claim C4. A run ends with one message on the error stream, exit code 1 and nothing on
  standard output exactly when a fatal condition holds. Every run that ends either ends
  so, or ends with exit code 0 and a single document as its only standard output. On a
  payload whose nodes and edges form a proper tree with truthy target uids the run does
  end, with a document.
\<close>

theorem render_fails_exactly_on_fatal:
  "(\<exists>message. render_tree L fuel p = Some \<lparr>exit_code = 1, stdout = [], stderr = [message]\<rparr>)
     = fatalCondition p
   \<and> (render_tree L fuel p = Some r
        \<longrightarrow> (\<exists>message. r = \<lparr>exit_code = 1, stdout = [], stderr = [message]\<rparr>)
            \<or> (\<exists>doc. r = \<lparr>exit_code = 0, stdout = [doc], stderr = []\<rparr>))
   \<and> (properTree t (nodesOf bs ls) es \<and> [] \<notin> target ` set es
        \<longrightarrow> (\<exists>doc. render_tree L (length (nodesOf bs ls))
                    \<lparr>p_branches = Some bs, p_leaves = Some ls, p_edges = Some es,
                     p_highlights = Some hs, p_input = inp\<rparr>
                  = Some \<lparr>exit_code = 0, stdout = [doc], stderr = []\<rparr>))"
  using render_fatal [of L fuel p] render_outcomes [of L fuel p r]
    render_proper_tree [of t bs ls es L hs inp]
  unfolding exit1_def by blast

theorem render_fails_exactly_on_fatal_witness:
  "fatalCondition noEdgesPayload
   \<and> (\<exists>message. render_tree originLayout 0 noEdgesPayload
         = Some \<lparr>exit_code = 1, stdout = [], stderr = [message]\<rparr>)
   \<and> \<not> fatalCondition glowPayload
   \<and> (\<exists>doc. render_tree originLayout 3 glowPayload
         = Some \<lparr>exit_code = 0, stdout = [doc], stderr = []\<rparr>)"
proof -
  let ?bs = "[\<lparr>b_uid = ''b1'', b_name = ''is_number?''\<rparr>]"
  let ?ls = "[\<lparr>l_uid = ''l1'', l_typ = Some ''float'', l_parser = None,
                        l_examples = None, l_output = Some ''float(3.14)''\<rparr>,
                       \<lparr>l_uid = ''l2'', l_typ = Some ''string'', l_parser = None,
                        l_examples = None, l_output = Some ''string(abc)''\<rparr>]"
  let ?es = "[\<lparr>source = ''b1'', target = ''l1'', edge_label = Some ''true''\<rparr>,
                      \<lparr>source = ''b1'', target = ''l2'', edge_label = Some ''false''\<rparr>]"
  have f: "fatalCondition noEdgesPayload"
    by (simp add: fatalCondition_def noEdgesPayload_def glowPayload_def)
  have t: "properTree glowTree (nodesOf ?bs ?ls) ?es \<and> [] \<notin> target ` set ?es"
    by (simp add: properTree_def glowTree_def nodesOf_def)
  have l: "length (nodesOf ?bs ?ls) = 3" by (simp add: nodesOf_def)
  have g: "\<not> fatalCondition glowPayload"
    by (simp add: fatalCondition_def glowPayload_def findRoots_eq nodesOf_def truthy_def)
  from render_fails_exactly_on_fatal [of originLayout 0 noEdgesPayload] f
  have a: "\<exists>message. render_tree originLayout 0 noEdgesPayload
         = Some \<lparr>exit_code = 1, stdout = [], stderr = [message]\<rparr>"
    by blast
  from render_fails_exactly_on_fatal [of originLayout 0 noEdgesPayload _ glowTree ?bs ?ls ?es
      "[''b1'', ''l1'']" "Some ''3.14''"] t
  have b: "\<exists>doc. render_tree originLayout 3 glowPayload
         = Some \<lparr>exit_code = 0, stdout = [doc], stderr = []\<rparr>"
    unfolding l glowPayload_def by blast
  from f a g b show ?thesis by (intro conjI)
qed

end
